theory Spec2Isabelle
  imports Complex_Main "HOL-Library.AList"
begin

section \<open>Data model of \<open>Main.py\<close>\<close>

datatype OrderStatus = PLACED | WIP | COMPLETE

datatype ProductType = VEG_PIZZA | NV_PIZZA | SANDWICH | BURGER | DRINKS

text \<open>
  Python floats are modelled as exact reals: rounding is not modelled, and no property
  below depends on the value of a price. What is modelled is the \<open>OverflowError\<close> of
  \<open>float * int\<close> when the integer is too large to convert to a float.
\<close>

record Product =
  code :: string
  description :: string
  price :: real
  product_type :: ProductType

record OrderItem =
  product_code :: string
  quantity :: int
  toppings :: "string list"
  item_price :: real

text \<open>The value of \<open>datetime.now()\<close>: an input of the operations that read the clock.\<close>

record datetime =
  year :: nat
  month :: nat
  day :: nat
  hour :: nat
  minute :: nat
  second :: nat
  microsecond :: nat

record Order =
  order_number :: string
  items :: "OrderItem list"
  status :: OrderStatus
  created_at :: datetime
  completed_at :: "datetime option"

record Staff =
  staff_id :: string
  name :: string
  skills :: "ProductType list"
  logged_in :: bool

text \<open>
  One element of the \<open>items\<close> argument of \<open>place_order\<close>: a dict in which each of the
  three keys may be absent (\<open>None\<close>), as \<open>item.get\<close> allows.
\<close>

record item_request =
  req_product_code :: "string option"
  req_quantity :: "int option"
  req_toppings :: "string list option"

datatype error = ValueError string | KeyError string | OverflowError string

text \<open>
  The system object. \<open>Order\<close> objects are mutable and shared between the queue, the
  lists \<open>process_orders\<close> returns and the caller of \<open>place_order\<close>, so they live in an
  object store \<open>heap\<close>; a reference to an order is its index there, and
  \<open>orders_queue\<close> is a list of references. A dict is an association list in insertion
  order. A reference to a \<open>Staff\<close> object is the key under which \<open>staff_members\<close> holds
  it (every key holds its own object, which is never replaced).
  \<open>product_group_mapping\<close> always has every \<open>ProductType\<close> as a key, so it is a total
  function, and \<open>.get(pt, [])\<close> is its application.
\<close>

record WorkloadManagementSystem =
  heap :: "Order list"
  orders_queue :: "nat list"
  staff_members :: "(string \<times> Staff) list"
  products :: "(string \<times> Product) list"
  product_group_mapping :: "ProductType \<Rightarrow> string list"

section \<open>Order and Staff methods\<close>

text \<open>\<open>Order.update_status\<close>; \<open>now\<close> is read only when the new status is \<open>COMPLETE\<close>.\<close>

definition update_status :: "Order \<Rightarrow> OrderStatus \<Rightarrow> datetime \<Rightarrow> Order" where
  "update_status self new_status now =
     (if new_status = COMPLETE
      then self\<lparr>status := new_status, completed_at := Some now\<rparr>
      else self\<lparr>status := new_status\<rparr>)"

definition can_handle_product :: "Staff \<Rightarrow> ProductType \<Rightarrow> bool" where
  "can_handle_product self pt = (pt \<in> set (skills self))"

section \<open>The capability index\<close>

fun add_skills :: "string \<Rightarrow> ProductType list \<Rightarrow> (ProductType \<Rightarrow> string list)
    \<Rightarrow> (ProductType \<Rightarrow> string list)" where
  "add_skills staff [] m = m"
| "add_skills staff (skill # rest) m = add_skills staff rest (m(skill := m skill @ [staff]))"

fun add_staff :: "(string \<times> Staff) list \<Rightarrow> (ProductType \<Rightarrow> string list)
    \<Rightarrow> (ProductType \<Rightarrow> string list)" where
  "add_staff [] m = m"
| "add_staff ((k, staff) # rest) m =
     add_staff rest (if logged_in staff then add_skills k (skills staff) m else m)"

definition update_product_group_mapping ::
    "WorkloadManagementSystem \<Rightarrow> WorkloadManagementSystem" where
  "update_product_group_mapping self =
     self\<lparr>product_group_mapping := add_staff (staff_members self) (\<lambda>pt. [])\<rparr>"

definition staff_login :: "WorkloadManagementSystem \<Rightarrow> string \<Rightarrow> bool \<times> WorkloadManagementSystem" where
  "staff_login self sid =
     (if map_of (staff_members self) sid \<noteq> None
      then (True, update_product_group_mapping
              (self\<lparr>staff_members :=
                 AList.map_entry sid (\<lambda>s. s\<lparr>logged_in := True\<rparr>) (staff_members self)\<rparr>))
      else (False, self))"

definition staff_logout :: "WorkloadManagementSystem \<Rightarrow> string \<Rightarrow> bool \<times> WorkloadManagementSystem" where
  "staff_logout self sid =
     (if map_of (staff_members self) sid \<noteq> None
      then (True, update_product_group_mapping
              (self\<lparr>staff_members :=
                 AList.map_entry sid (\<lambda>s. s\<lparr>logged_in := False\<rparr>) (staff_members self)\<rparr>))
      else (False, self))"

section \<open>Placing an order\<close>

definition digit :: "nat \<Rightarrow> char" where
  "digit n = char_of (48 + n mod 10)"

text \<open>
  \<open>strftime('%d%m%Y')\<close>: two digits of the day, two of the month, four of the year
  (the fields of a \<open>datetime\<close> are in range: day and month below 100, year below 10000).
\<close>

definition strftime_dmY :: "datetime \<Rightarrow> string" where
  "strftime_dmY t =
     [digit (day t div 10), digit (day t),
      digit (month t div 10), digit (month t),
      digit (year t div 1000), digit (year t div 100), digit (year t div 10), digit (year t)]"

definition upper_char :: "char \<Rightarrow> char" where
  "upper_char c =
     (if (97::nat) \<le> of_char c \<and> of_char c \<le> (122::nat)
      then char_of (of_char c - (32::nat)) else c)"

text \<open>
  The order number: \<open>uuid_hex\<close> is the value of \<open>uuid.uuid4().hex\<close> (32 lower-case
  hexadecimal digits), of which the first three are kept, in upper case.
\<close>

definition make_order_number :: "datetime \<Rightarrow> string \<Rightarrow> string" where
  "make_order_number now uuid_hex =
     ''ORD'' @ strftime_dmY now @ map upper_char (take 3 uuid_hex)"

text \<open>
  The conversion of an \<open>int\<close> to a \<open>float\<close> rounds to the nearest float, ties to even,
  and raises \<open>OverflowError\<close> when the result is beyond the largest float
  \<open>2^1024 - 2^971\<close>: from the midpoint \<open>2^1024 - 2^970\<close> on.
\<close>

definition float_overflow :: "int \<Rightarrow> bool" where
  "float_overflow q = (2 ^ 1024 - 2 ^ 970 \<le> \<bar>q\<bar>)"

text \<open>
  The loop of \<open>place_order\<close> that builds \<open>order_items\<close>: an item without a known
  product code is skipped; \<open>product.price * item.get('quantity', 1)\<close> raises when the
  quantity does not convert.
\<close>

fun build_items :: "(string \<times> Product) list \<Rightarrow> item_request list \<Rightarrow> error + OrderItem list" where
  "build_items ps [] = Inr []"
| "build_items ps (item # rest) =
     (case req_product_code item of
        None \<Rightarrow> build_items ps rest
      | Some pc \<Rightarrow>
          (case map_of ps pc of
             None \<Rightarrow> build_items ps rest
           | Some product \<Rightarrow>
               if float_overflow (case req_quantity item of None \<Rightarrow> 1 | Some q \<Rightarrow> q)
               then Inl (OverflowError ''int too large to convert to float'')
               else
                 (case build_items ps rest of
                    Inl e \<Rightarrow> Inl e
                  | Inr order_items \<Rightarrow>
                      Inr (\<lparr>product_code = pc,
                        quantity = (case req_quantity item of None \<Rightarrow> 1 | Some q \<Rightarrow> q),
                        toppings = (case req_toppings item of None \<Rightarrow> [] | Some ts \<Rightarrow> ts),
                        item_price = price product
                          * of_int (case req_quantity item of None \<Rightarrow> 1 | Some q \<Rightarrow> q)\<rparr>
                        # order_items))))"

text \<open>
  \<open>place_order\<close> reads the clock twice: \<open>now\<close> for the order number and \<open>now'\<close> for
  \<open>created_at\<close>. It returns the reference of the new order, or the error raised (the
  \<open>ValueError\<close> is the InvalidOrder condition), and the state after the call.
\<close>

definition place_order :: "WorkloadManagementSystem \<Rightarrow> datetime \<Rightarrow> string \<Rightarrow> datetime
    \<Rightarrow> item_request list \<Rightarrow> (error + nat) \<times> WorkloadManagementSystem" where
  "place_order self now uuid_hex now' items_arg =
     (let number = make_order_number now uuid_hex
      in case build_items (products self) items_arg of
           Inl e \<Rightarrow> (Inl e, self)
         | Inr order_items \<Rightarrow>
             if order_items = [] then (Inl (ValueError ''No valid items in order''), self)
             else
               let order = \<lparr>order_number = number, items = order_items, status = PLACED,
                             created_at = now', completed_at = None\<rparr>;
                   ref = length (heap self)
               in (Inr ref, self\<lparr>heap := heap self @ [order],
                                 orders_queue := orders_queue self @ [ref]\<rparr>))"

section \<open>Dispatch\<close>

text \<open>
  The inner loop of \<open>process_orders\<close>: the value of \<open>all_items_assigned\<close> after the
  loop, or the \<open>KeyError\<close> of \<open>self.products[item.product_code]\<close>.
\<close>

fun all_items_assigned :: "WorkloadManagementSystem \<Rightarrow> OrderItem list \<Rightarrow> error + bool" where
  "all_items_assigned self [] = Inr True"
| "all_items_assigned self (item # rest) =
     (case map_of (products self) (product_code item) of
        None \<Rightarrow> Inl (KeyError (product_code item))
      | Some product \<Rightarrow>
          if product_group_mapping self (product_type product) = [] then Inr False
          else all_items_assigned self rest)"

text \<open>
  \<open>list.remove(x)\<close> on the queue: the first element that is \<open>x\<close> or equal to it
  (the dataclass \<open>__eq__\<close> compares all fields) is removed; \<open>None\<close> is the
  \<open>ValueError\<close> when there is none.
\<close>

fun list_remove :: "Order list \<Rightarrow> nat list \<Rightarrow> nat \<Rightarrow> nat list option" where
  "list_remove h [] x = None"
| "list_remove h (e # es) x =
     (if e = x \<or> h ! e = h ! x then Some es
      else map_option ((#) e) (list_remove h es x))"

text \<open>
  The outer loop, over the copy \<open>snapshot\<close> of the queue, with the list
  \<open>processed\<close> so far. The state returned with an error is the state at the raise.
\<close>

fun process_loop :: "datetime \<Rightarrow> nat list \<Rightarrow> WorkloadManagementSystem \<Rightarrow> nat list
    \<Rightarrow> (error + nat list) \<times> WorkloadManagementSystem" where
  "process_loop now [] self processed = (Inr processed, self)"
| "process_loop now (r # snapshot) self processed =
     (if status (heap self ! r) \<noteq> PLACED then process_loop now snapshot self processed
      else
        (case all_items_assigned self (items (heap self ! r)) of
           Inl e \<Rightarrow> (Inl e, self)
         | Inr False \<Rightarrow> process_loop now snapshot self processed
         | Inr True \<Rightarrow>
             (let h = (heap self)[r := update_status (heap self ! r) WIP now];
                  self1 = self\<lparr>heap := h\<rparr>
              in case list_remove h (orders_queue self1) r of
                   None \<Rightarrow> (Inl (ValueError ''list.remove(x): x not in list''), self1)
                 | Some q \<Rightarrow>
                     process_loop now snapshot (self1\<lparr>orders_queue := q\<rparr>)
                       (processed @ [r]))))"

text \<open>
  \<open>process_orders\<close>; \<open>now\<close> is what the clock would return, which
  \<open>update_status\<close> does not read for \<open>WIP\<close>. The diagnostic \<open>print\<close> is not modelled.
\<close>

definition process_orders :: "WorkloadManagementSystem \<Rightarrow> datetime
    \<Rightarrow> (error + nat list) \<times> WorkloadManagementSystem" where
  "process_orders self now = process_loop now (orders_queue self) self []"

section \<open>Completion and queries\<close>

definition complete_order_item :: "WorkloadManagementSystem \<Rightarrow> string \<Rightarrow> string \<Rightarrow> datetime
    \<Rightarrow> bool \<times> WorkloadManagementSystem" where
  "complete_order_item self number pcode now =
     (case find (\<lambda>r. order_number (heap self ! r) = number) (orders_queue self) of
        None \<Rightarrow> (False, self)
      | Some r \<Rightarrow>
          (True, self\<lparr>heap := (heap self)[r := update_status (heap self ! r) COMPLETE now]\<rparr>))"

definition get_available_products :: "WorkloadManagementSystem \<Rightarrow> Product list" where
  "get_available_products self =
     filter (\<lambda>p. product_group_mapping self (product_type p) \<noteq> []) (map snd (products self))"

definition get_orders_by_status :: "WorkloadManagementSystem \<Rightarrow> OrderStatus \<Rightarrow> nat list" where
  "get_orders_by_status self s =
     filter (\<lambda>r. status (heap self ! r) = s) (orders_queue self)"

section \<open>The initial system and its public operations\<close>

definition sample_products :: "(string \<times> Product) list" where
  "sample_products =
     [(''P001'', \<lparr>code = ''P001'', description = ''Margherita Pizza'', price = 899 / 100,
                  product_type = VEG_PIZZA\<rparr>),
      (''P002'', \<lparr>code = ''P002'', description = ''Pepperoni Pizza'', price = 1099 / 100,
                  product_type = NV_PIZZA\<rparr>),
      (''S001'', \<lparr>code = ''S001'', description = ''Veg Sandwich'', price = 599 / 100,
                  product_type = SANDWICH\<rparr>),
      (''B001'', \<lparr>code = ''B001'', description = ''Cheeseburger'', price = 799 / 100,
                  product_type = BURGER\<rparr>),
      (''D001'', \<lparr>code = ''D001'', description = ''Soft Drink'', price = 199 / 100,
                  product_type = DRINKS\<rparr>)]"

definition sample_staff :: "(string \<times> Staff) list" where
  "sample_staff =
     [(''S001'', \<lparr>staff_id = ''S001'', name = ''Chandler'',
                  skills = [VEG_PIZZA, BURGER], logged_in = False\<rparr>),
      (''S002'', \<lparr>staff_id = ''S002'', name = ''Joey'',
                  skills = [VEG_PIZZA, NV_PIZZA, SANDWICH, BURGER], logged_in = False\<rparr>),
      (''S003'', \<lparr>staff_id = ''S003'', name = ''Rachel'',
                  skills = [NV_PIZZA], logged_in = False\<rparr>),
      (''S004'', \<lparr>staff_id = ''S004'', name = ''Monica'',
                  skills = [SANDWICH], logged_in = False\<rparr>),
      (''S005'', \<lparr>staff_id = ''S005'', name = ''Ross'',
                  skills = [DRINKS], logged_in = False\<rparr>)]"

text \<open>\<open>WorkloadManagementSystem()\<close>: the constructor with its sample data.\<close>

definition init :: WorkloadManagementSystem where
  "init = update_product_group_mapping
     \<lparr>heap = [], orders_queue = [], staff_members = sample_staff,
      products = sample_products, product_group_mapping = (\<lambda>pt. [])\<rparr>"

text \<open>A call of a public operation, with its arguments and the clock and UUID it reads.\<close>

datatype call =
    StaffLogin string
  | StaffLogout string
  | PlaceOrder datetime string datetime "item_request list"
  | ProcessOrders datetime
  | CompleteOrderItem string string datetime

fun exec :: "call \<Rightarrow> WorkloadManagementSystem \<Rightarrow> WorkloadManagementSystem" where
  "exec (StaffLogin sid) self = snd (staff_login self sid)"
| "exec (StaffLogout sid) self = snd (staff_logout self sid)"
| "exec (PlaceOrder now u now' its) self = snd (place_order self now u now' its)"
| "exec (ProcessOrders now) self = snd (process_orders self now)"
| "exec (CompleteOrderItem n pc now) self = snd (complete_order_item self n pc now)"

definition run :: "call list \<Rightarrow> WorkloadManagementSystem \<Rightarrow> WorkloadManagementSystem" where
  "run cs self = fold exec cs self"

inductive reachable :: "WorkloadManagementSystem \<Rightarrow> bool" where
  reachable_init: "reachable init"
| reachable_exec: "reachable self \<Longrightarrow> reachable (exec c self)"


section \<open>Predicates used in the statements\<close>

text \<open>
  The test \<open>process_orders\<close> applies to an order of the queue: its status is
  \<open>PLACED\<close> and the inner loop ends with \<open>all_items_assigned\<close> true.
\<close>

definition dispatchable :: "WorkloadManagementSystem \<Rightarrow> nat \<Rightarrow> bool" where
  "dispatchable self r =
     (status (heap self ! r) = PLACED
      \<and> all_items_assigned self (items (heap self ! r)) = Inr True)"

definition known_items :: "WorkloadManagementSystem \<Rightarrow> OrderItem list \<Rightarrow> bool" where
  "known_items self its = (\<forall>it \<in> set its. map_of (products self) (product_code it) \<noteq> None)"

text \<open>
  The invariants of the reachable states: the queue holds distinct, valid references
  to orders that are not \<open>WIP\<close> and whose items are in the catalog; \<open>completed_at\<close>
  goes with \<open>COMPLETE\<close>; the index is the one a rebuild would give.
\<close>

definition queue_ok :: "WorkloadManagementSystem \<Rightarrow> bool" where
  "queue_ok self =
     (distinct (orders_queue self)
      \<and> (\<forall>r \<in> set (orders_queue self).
            r < length (heap self) \<and> status (heap self ! r) \<noteq> WIP
            \<and> known_items self (items (heap self ! r))))"

definition stamps_ok :: "WorkloadManagementSystem \<Rightarrow> bool" where
  "stamps_ok self =
     (\<forall>ord \<in> set (heap self). (completed_at ord \<noteq> None) = (status ord = COMPLETE))"

definition index_ok :: "WorkloadManagementSystem \<Rightarrow> bool" where
  "index_ok self =
     (\<forall>c. set (product_group_mapping self c) =
           {k. \<exists>s. map_of (staff_members self) k = Some s \<and> logged_in s \<and> c \<in> set (skills s)})"

definition staff_ok :: "WorkloadManagementSystem \<Rightarrow> bool" where
  "staff_ok self = (distinct (map fst (staff_members self)) \<and> index_ok self)"

text \<open>
  A requested item resolves when it has a product code that is a key of the catalog:
  the items \<open>place_order\<close> keeps.
\<close>

definition resolves :: "WorkloadManagementSystem \<Rightarrow> item_request \<Rightarrow> bool" where
  "resolves self item =
     (case req_product_code item of
        None \<Rightarrow> False
      | Some pc \<Rightarrow> map_of (products self) pc \<noteq> None)"

text \<open>
  A requested item overflows when it resolves and its quantity (1 when absent) does
  not convert to a float. A request is accepted when an item resolves and none
  overflows.
\<close>

definition overflows :: "WorkloadManagementSystem \<Rightarrow> item_request \<Rightarrow> bool" where
  "overflows self item =
     (resolves self item
      \<and> float_overflow (case req_quantity item of None \<Rightarrow> 1 | Some q \<Rightarrow> q))"

definition accepted :: "WorkloadManagementSystem \<Rightarrow> item_request list \<Rightarrow> bool" where
  "accepted self its =
     ((\<exists>it \<in> set its. resolves self it) \<and> \<not> (\<exists>it \<in> set its. overflows self it))"

text \<open>
  For each successful \<open>place_order\<close> call of a sequence (the catalog never changes, so
  success is decided on the initial catalog), the two things its order number is
  made of: the formatted date and the three upper-case digits of the UUID.
\<close>

fun placed_keys :: "call list \<Rightarrow> (string \<times> string) list" where
  "placed_keys [] = []"
| "placed_keys (PlaceOrder now u now' its # cs) =
     (if accepted init its
      then (strftime_dmY now, map upper_char (take 3 u)) # placed_keys cs
      else placed_keys cs)"
| "placed_keys (c # cs) = placed_keys cs"

text \<open>
  An item whose product category has no available staff: the test of the inner loop of
  \<open>process_orders\<close> that ends it with \<open>all_items_assigned\<close> false.
\<close>

definition unstaffed :: "WorkloadManagementSystem \<Rightarrow> OrderItem \<Rightarrow> bool" where
  "unstaffed self item =
     (case map_of (products self) (product_code item) of
        None \<Rightarrow> False
      | Some product \<Rightarrow> product_group_mapping self (product_type product) = [])"

section \<open>Sample inputs\<close>

definition noon :: datetime where
  "noon = \<lparr>year = 2026, month = 11, day = 4, hour = 12, minute = 0, second = 0,
            microsecond = 0\<rparr>"

definition request :: "string \<Rightarrow> int \<Rightarrow> item_request" where
  "request c q = \<lparr>req_product_code = Some c, req_quantity = Some q, req_toppings = None\<rparr>"

text \<open>Three UUIDs in hexadecimal; the first two share their first three digits.\<close>

definition uuid1 :: string where "uuid1 = ''9f3c2b1a0d4e4f5a8b6c7d8e9f0a1b2c''"

definition uuid2 :: string where "uuid2 = ''9f3e6d5c4b3a4a298170f1e2d3c4b5a6''"

definition uuid3 :: string where "uuid3 = ''77aa10c2b3d44e5f9a8b7c6d5e4f3a2b''"

text \<open>A quantity too large to convert to a float.\<close>

definition huge :: int where "huge = 10 ^ 400"

text \<open>
  What a sample run is observed by: the queue and, for every order created, its
  number, status and \<open>completed_at\<close>.
\<close>

definition summary ::
    "WorkloadManagementSystem \<Rightarrow> nat list \<times> (string \<times> OrderStatus \<times> datetime option) list" where
  "summary self =
     (orders_queue self,
      map (\<lambda>ord. (order_number ord, status ord, completed_at ord)) (heap self))"

section \<open>The dispatch loop\<close>

lemma all_items_assigned_cong:
  "products a = products b \<Longrightarrow> product_group_mapping a = product_group_mapping b
   \<Longrightarrow> all_items_assigned a its = all_items_assigned b its"
  by (induction its) (auto split: option.splits)

lemma all_items_assigned_known:
  "known_items self its \<Longrightarrow> \<exists>b. all_items_assigned self its = Inr b"
  by (induction its) (auto simp: known_items_def split: option.splits)

lemma list_remove_first:
  "x \<notin> set pre \<Longrightarrow> \<forall>e \<in> set pre. h ! e \<noteq> h ! x
   \<Longrightarrow> list_remove h (pre @ x # rs) x = Some (pre @ rs)"
  by (induction pre) auto

lemma update_status_WIP: "update_status ord WIP now = ord\<lparr>status := WIP\<rparr>"
  by (simp add: update_status_def)

lemma process_loop_char:
  assumes "orders_queue st = pre @ rs"
    and "distinct (pre @ rs)"
    and "\<forall>r \<in> set (pre @ rs). r < length (heap st) \<and> status (heap st ! r) \<noteq> WIP"
    and "\<forall>r \<in> set rs. known_items st (items (heap st ! r))"
  shows "\<exists>h'. process_loop now rs st acc =
           (Inr (acc @ filter (dispatchable st) rs),
            st\<lparr>heap := h', orders_queue := pre @ filter (\<lambda>r. \<not> dispatchable st r) rs\<rparr>)
         \<and> length h' = length (heap st)
         \<and> (\<forall>i < length (heap st). h' ! i =
              (if i \<in> set rs \<and> dispatchable st i then (heap st ! i)\<lparr>status := WIP\<rparr>
               else heap st ! i))"
  using assms
proof (induction rs arbitrary: st pre acc)
  case Nil
  then show ?case
    by (intro exI [of _ "heap st"]) simp
next
  case (Cons r rs)
  have q: "orders_queue st = (pre @ [r]) @ rs" using Cons.prems(1) by simp
  have d: "distinct ((pre @ [r]) @ rs)" using Cons.prems(2) by simp
  have v: "\<forall>x \<in> set ((pre @ [r]) @ rs). x < length (heap st) \<and> status (heap st ! x) \<noteq> WIP"
    using Cons.prems(3) by simp
  have k: "\<forall>x \<in> set rs. known_items st (items (heap st ! x))"
    using Cons.prems(4) by simp
  have r_pre: "r \<notin> set pre" and r_rs: "r \<notin> set rs" using Cons.prems(2) by auto
  have r_len: "r < length (heap st)" using Cons.prems(3) by simp
  obtain b where b: "all_items_assigned st (items (heap st ! r)) = Inr b"
    using all_items_assigned_known Cons.prems(4) by fastforce
  show ?case
  proof (cases "dispatchable st r")
    case False
    then have step: "process_loop now (r # rs) st acc = process_loop now rs st acc"
      using b by (auto simp: dispatchable_def)
    from Cons.IH [OF q d v k, of acc] obtain h' where
      h': "process_loop now rs st acc =
             (Inr (acc @ filter (dispatchable st) rs),
              st\<lparr>heap := h', orders_queue := (pre @ [r]) @ filter (\<lambda>r. \<not> dispatchable st r) rs\<rparr>)"
          "length h' = length (heap st)"
          "\<forall>i < length (heap st). h' ! i =
              (if i \<in> set rs \<and> dispatchable st i then (heap st ! i)\<lparr>status := WIP\<rparr>
               else heap st ! i)"
      by blast
    show ?thesis
    proof (intro exI [of _ h'] conjI allI impI)
      show "process_loop now (r # rs) st acc =
        (Inr (acc @ filter (dispatchable st) (r # rs)),
         st\<lparr>heap := h', orders_queue := pre @ filter (\<lambda>r. \<not> dispatchable st r) (r # rs)\<rparr>)"
        using step h'(1) False by simp
      show "length h' = length (heap st)" by (rule h'(2))
      fix i assume "i < length (heap st)"
      then show "h' ! i = (if i \<in> set (r # rs) \<and> dispatchable st i
                           then (heap st ! i)\<lparr>status := WIP\<rparr> else heap st ! i)"
        using h'(3) False by auto
    qed
  next
    case True
    define h1 where "h1 = (heap st)[r := update_status (heap st ! r) WIP now]"
    define st2 where "st2 = st\<lparr>heap := h1, orders_queue := pre @ rs\<rparr>"
    have h1_r: "h1 ! r = (heap st ! r)\<lparr>status := WIP\<rparr>"
      using r_len by (simp add: h1_def update_status_WIP)
    have h1_other: "x \<noteq> r \<Longrightarrow> h1 ! x = heap st ! x" for x
      by (simp add: h1_def)
    have len1: "length h1 = length (heap st)" by (simp add: h1_def)
    have "\<forall>e \<in> set pre. h1 ! e \<noteq> h1 ! r"
    proof
      fix e assume e: "e \<in> set pre"
      then have "e \<noteq> r" using r_pre by auto
      then have "status (h1 ! e) \<noteq> WIP" using Cons.prems(3) e by (simp add: h1_other)
      moreover have "status (h1 ! r) = WIP" by (simp add: h1_r)
      ultimately show "h1 ! e \<noteq> h1 ! r" by auto
    qed
    then have rem: "list_remove h1 (pre @ r # rs) r = Some (pre @ rs)"
      using r_pre by (rule list_remove_first [rotated])
    have step: "process_loop now (r # rs) st acc = process_loop now rs st2 (acc @ [r])"
      using True rem Cons.prems(1)
      by (simp add: dispatchable_def h1_def st2_def Let_def)
    have q2: "orders_queue st2 = pre @ rs" by (simp add: st2_def)
    have d2: "distinct (pre @ rs)" using Cons.prems(2) by simp
    have heap2: "heap st2 = h1" by (simp add: st2_def)
    have same: "x \<in> set (pre @ rs) \<Longrightarrow> heap st2 ! x = heap st ! x" for x
    proof -
      assume "x \<in> set (pre @ rs)"
      then have "x \<noteq> r" using r_pre r_rs by auto
      then show ?thesis by (simp add: heap2 h1_other)
    qed
    have v2: "\<forall>x \<in> set (pre @ rs). x < length (heap st2) \<and> status (heap st2 ! x) \<noteq> WIP"
      using Cons.prems(3) same by (auto simp: heap2 len1)
    have kn: "known_items st2 its = known_items st its" for its
      by (simp add: known_items_def st2_def)
    have k2: "\<forall>x \<in> set rs. known_items st2 (items (heap st2 ! x))"
      using k same by (simp add: kn)
    have aia: "all_items_assigned st2 its = all_items_assigned st its" for its
      by (rule all_items_assigned_cong) (simp_all add: st2_def)
    have disp: "x \<noteq> r \<Longrightarrow> dispatchable st2 x = dispatchable st x" for x
      by (simp add: dispatchable_def aia heap2 h1_other)
    have disp_rs: "x \<in> set rs \<Longrightarrow> dispatchable st2 x = dispatchable st x" for x
    proof -
      assume "x \<in> set rs"
      then have "x \<noteq> r" using r_rs by auto
      then show ?thesis by (rule disp)
    qed
    have f1: "filter (dispatchable st2) rs = filter (dispatchable st) rs"
      by (rule filter_cong) (simp_all add: disp_rs)
    have f2: "filter (\<lambda>r. \<not> dispatchable st2 r) rs = filter (\<lambda>r. \<not> dispatchable st r) rs"
      by (rule filter_cong) (simp_all add: disp_rs)
    from Cons.IH [OF q2 d2 v2 k2, of "acc @ [r]"] obtain h' where
      h': "process_loop now rs st2 (acc @ [r]) =
             (Inr ((acc @ [r]) @ filter (dispatchable st2) rs),
              st2\<lparr>heap := h', orders_queue := pre @ filter (\<lambda>r. \<not> dispatchable st2 r) rs\<rparr>)"
          "length h' = length (heap st2)"
          "\<forall>i < length (heap st2). h' ! i =
              (if i \<in> set rs \<and> dispatchable st2 i then (heap st2 ! i)\<lparr>status := WIP\<rparr>
               else heap st2 ! i)"
      by blast
    show ?thesis
    proof (intro exI [of _ h'] conjI allI impI)
      show "process_loop now (r # rs) st acc =
        (Inr (acc @ filter (dispatchable st) (r # rs)),
         st\<lparr>heap := h', orders_queue := pre @ filter (\<lambda>r. \<not> dispatchable st r) (r # rs)\<rparr>)"
        using step h'(1) [unfolded f1 f2] True by (simp add: st2_def)
      show "length h' = length (heap st)" using h'(2) by (simp add: heap2 len1)
      fix i assume i: "i < length (heap st)"
      show "h' ! i = (if i \<in> set (r # rs) \<and> dispatchable st i
                           then (heap st ! i)\<lparr>status := WIP\<rparr> else heap st ! i)"
      proof (cases "i = r")
        case True
        then show ?thesis using h'(3) i r_rs \<open>dispatchable st r\<close>
          by (simp add: heap2 len1 h1_r)
      next
        case False
        then show ?thesis using h'(3) i disp [of i]
          by (simp add: heap2 len1 h1_other)
      qed
    qed
  qed
qed

section \<open>Rebuilding the capability index\<close>

lemma set_add_skills:
  "set (add_skills k sk m c) = set (m c) \<union> (if c \<in> set sk then {k} else {})"
  by (induction sk arbitrary: m) auto

lemma set_add_staff:
  "set (add_staff al m c) =
     set (m c) \<union> {k. \<exists>s. (k, s) \<in> set al \<and> logged_in s \<and> c \<in> set (skills s)}"
proof (induction al arbitrary: m)
  case Nil
  show ?case by simp
next
  case (Cons p al)
  obtain k s where p: "p = (k, s)" by (cases p)
  show ?case
    unfolding p by (auto simp: Cons.IH set_add_skills)
qed

lemma index_ok_rebuild:
  assumes "distinct (map fst (staff_members self))"
  shows "index_ok (update_product_group_mapping self)"
  using assms by (simp add: index_ok_def update_product_group_mapping_def set_add_staff)

lemma rebuild_fields:
  "heap (update_product_group_mapping self) = heap self"
  "orders_queue (update_product_group_mapping self) = orders_queue self"
  "staff_members (update_product_group_mapping self) = staff_members self"
  "products (update_product_group_mapping self) = products self"
  by (simp_all add: update_product_group_mapping_def)

lemma staff_ok_rebuild:
  "distinct (map fst (staff_members self)) \<Longrightarrow> staff_ok (update_product_group_mapping self)"
  by (simp add: staff_ok_def index_ok_rebuild rebuild_fields)

lemma staff_ok_login: "staff_ok self \<Longrightarrow> staff_ok (snd (staff_login self sid))"
  by (auto simp: staff_login_def intro!: staff_ok_rebuild)
    (simp add: staff_ok_def distinct_map_entry)

lemma staff_ok_logout: "staff_ok self \<Longrightarrow> staff_ok (snd (staff_logout self sid))"
  by (auto simp: staff_logout_def intro!: staff_ok_rebuild)
    (simp add: staff_ok_def distinct_map_entry)

lemma login_fields:
  "heap (snd (staff_login self sid)) = heap self"
  "orders_queue (snd (staff_login self sid)) = orders_queue self"
  "products (snd (staff_login self sid)) = products self"
  by (simp_all add: staff_login_def rebuild_fields)

lemma logout_fields:
  "heap (snd (staff_logout self sid)) = heap self"
  "orders_queue (snd (staff_logout self sid)) = orders_queue self"
  "products (snd (staff_logout self sid)) = products self"
  by (simp_all add: staff_logout_def rebuild_fields)

section \<open>Preservation of the invariants\<close>

lemma known_items_products:
  "products a = products b \<Longrightarrow> known_items a its = known_items b its"
  by (simp add: known_items_def)

lemma queue_ok_cong:
  "heap a = heap b \<Longrightarrow> orders_queue a = orders_queue b \<Longrightarrow> products a = products b
   \<Longrightarrow> queue_ok a = queue_ok b"
  by (simp add: queue_ok_def known_items_def)

lemma known_build_items:
  "build_items (products self) its = Inr ois \<Longrightarrow> known_items self ois"
  unfolding known_items_def
  by (induction its arbitrary: ois) (auto split: option.splits if_splits sum.splits)

lemma place_order_cases:
  obtains (failure) e where "place_order self now u now' its = (Inl e, self)"
  | (success) ois where "build_items (products self) its = Inr ois" and "ois \<noteq> []"
      and "place_order self now u now' its =
        (Inr (length (heap self)),
         self\<lparr>heap := heap self @ [\<lparr>order_number = make_order_number now u, items = ois,
                   status = PLACED, created_at = now', completed_at = None\<rparr>],
               orders_queue := orders_queue self @ [length (heap self)]\<rparr>)"
proof (cases "build_items (products self) its")
  case (Inl e)
  then have "place_order self now u now' its = (Inl e, self)"
    by (simp add: place_order_def)
  then show ?thesis by (rule failure)
next
  case (Inr ois)
  show ?thesis
  proof (cases "ois = []")
    case True
    then have "place_order self now u now' its
        = (Inl (ValueError ''No valid items in order''), self)"
      using Inr by (simp add: place_order_def)
    then show ?thesis by (rule failure)
  next
    case False
    then show ?thesis using Inr by (intro success [of ois]) (simp_all add: place_order_def Let_def)
  qed
qed

lemma place_order_fields:
  "products (snd (place_order self now u now' its)) = products self"
  "staff_members (snd (place_order self now u now' its)) = staff_members self"
  "product_group_mapping (snd (place_order self now u now' its)) = product_group_mapping self"
  by (cases rule: place_order_cases [of self now u now' its]; simp)+

lemma queue_ok_place:
  assumes "queue_ok self"
  shows "queue_ok (snd (place_order self now u now' its))"
proof (cases rule: place_order_cases [of self now u now' its])
  case (failure e)
  then show ?thesis using assms by simp
next
  case (success ois)
  have k: "known_items self ois" using success(1) by (rule known_build_items)
  show ?thesis
    using assms k
    by (auto simp: success(3) queue_ok_def nth_append known_items_def)
qed

lemma stamps_ok_place:
  "stamps_ok self \<Longrightarrow> stamps_ok (snd (place_order self now u now' its))"
  by (cases rule: place_order_cases [of self now u now' its]) (auto simp: stamps_ok_def)

lemma complete_fields:
  "products (snd (complete_order_item self n pc now)) = products self"
  "staff_members (snd (complete_order_item self n pc now)) = staff_members self"
  "product_group_mapping (snd (complete_order_item self n pc now)) = product_group_mapping self"
  "orders_queue (snd (complete_order_item self n pc now)) = orders_queue self"
  by (simp_all add: complete_order_item_def split: option.splits)

lemma find_queue:
  "find P q = Some r \<Longrightarrow> r \<in> set q \<and> P r"
  by (auto simp: find_Some_iff)

lemma queue_ok_complete:
  assumes "queue_ok self"
  shows "queue_ok (snd (complete_order_item self n pc now))"
proof (cases "find (\<lambda>r. order_number (heap self ! r) = n) (orders_queue self)")
  case None
  then show ?thesis using assms by (simp add: complete_order_item_def)
next
  case (Some r)
  define h where "h = (heap self)[r := update_status (heap self ! r) COMPLETE now]"
  have r: "r \<in> set (orders_queue self)" using Some by (auto dest: find_queue)
  then have len: "r < length (heap self)" using assms by (simp add: queue_ok_def)
  have st: "snd (complete_order_item self n pc now) = self\<lparr>heap := h\<rparr>"
    using Some by (simp add: complete_order_item_def h_def)
  have at: "h ! x = (if x = r then update_status (heap self ! r) COMPLETE now else heap self ! x)"
    for x using len by (auto simp: h_def)
  have lenh: "length h = length (heap self)" by (simp add: h_def)
  have "status (h ! x) \<noteq> WIP \<and> known_items self (items (h ! x)) \<and> x < length h"
    if "x \<in> set (orders_queue self)" for x
    using that assms r by (auto simp: at lenh queue_ok_def update_status_def)
  moreover have "known_items (self\<lparr>heap := h\<rparr>) its = known_items self its" for its
    by (simp add: known_items_def)
  ultimately show ?thesis
    using assms by (simp add: st queue_ok_def)
qed

lemma stamps_ok_update:
  assumes "\<forall>ord \<in> set h. (completed_at ord \<noteq> None) = (status ord = COMPLETE)"
    and "(completed_at x \<noteq> None) = (status x = COMPLETE)"
  shows "\<forall>ord \<in> set (h[r := x]). (completed_at ord \<noteq> None) = (status ord = COMPLETE)"
proof
  fix ord assume "ord \<in> set (h[r := x])"
  then have "ord = x \<or> ord \<in> set h"
    using set_update_subset_insert [of h r x] by auto
  then show "(completed_at ord \<noteq> None) = (status ord = COMPLETE)"
    using assms by blast
qed

lemma stamps_ok_complete:
  assumes "stamps_ok self"
  shows "stamps_ok (snd (complete_order_item self n pc now))"
proof (cases "find (\<lambda>r. order_number (heap self ! r) = n) (orders_queue self)")
  case None
  then show ?thesis using assms by (simp add: complete_order_item_def)
next
  case (Some r)
  have "(completed_at (update_status (heap self ! r) COMPLETE now) \<noteq> None)
        = (status (update_status (heap self ! r) COMPLETE now) = COMPLETE)"
    by (simp add: update_status_def)
  with assms have "\<forall>ord \<in> set ((heap self)[r := update_status (heap self ! r) COMPLETE now]).
      (completed_at ord \<noteq> None) = (status ord = COMPLETE)"
    unfolding stamps_ok_def by (rule stamps_ok_update)
  then show ?thesis
    using Some by (simp add: complete_order_item_def stamps_ok_def)
qed

section \<open>What a dispatch pass does\<close>

lemma process_orders_char:
  assumes "queue_ok st"
  shows "\<exists>h'. process_orders st now =
           (Inr (filter (dispatchable st) (orders_queue st)),
            st\<lparr>heap := h',
                orders_queue := filter (\<lambda>r. \<not> dispatchable st r) (orders_queue st)\<rparr>)
         \<and> length h' = length (heap st)
         \<and> (\<forall>i < length (heap st). h' ! i =
              (if i \<in> set (orders_queue st) \<and> dispatchable st i
               then (heap st ! i)\<lparr>status := WIP\<rparr> else heap st ! i))"
proof -
  have "\<exists>h'. process_loop now (orders_queue st) st [] =
           (Inr ([] @ filter (dispatchable st) (orders_queue st)),
            st\<lparr>heap := h',
                orders_queue := [] @ filter (\<lambda>r. \<not> dispatchable st r) (orders_queue st)\<rparr>)
         \<and> length h' = length (heap st)
         \<and> (\<forall>i < length (heap st). h' ! i =
              (if i \<in> set (orders_queue st) \<and> dispatchable st i
               then (heap st ! i)\<lparr>status := WIP\<rparr> else heap st ! i))"
    using assms by (intro process_loop_char) (simp_all add: queue_ok_def)
  then show ?thesis by (simp add: process_orders_def)
qed

lemma queue_ok_process:
  assumes "queue_ok st"
  shows "queue_ok (snd (process_orders st now))"
proof -
  from process_orders_char [OF assms, of now] obtain h' where
    res: "snd (process_orders st now) =
            st\<lparr>heap := h',
                orders_queue := filter (\<lambda>r. \<not> dispatchable st r) (orders_queue st)\<rparr>"
    and len: "length h' = length (heap st)"
    and at: "\<forall>i < length (heap st). h' ! i =
              (if i \<in> set (orders_queue st) \<and> dispatchable st i
               then (heap st ! i)\<lparr>status := WIP\<rparr> else heap st ! i)"
    by auto
  define st' where "st' = st\<lparr>heap := h',
      orders_queue := filter (\<lambda>r. \<not> dispatchable st r) (orders_queue st)\<rparr>"
  have same: "h' ! x = heap st ! x"
    if "x \<in> set (orders_queue st)" "\<not> dispatchable st x" for x
    using that assms at by (simp add: queue_ok_def)
  have kn: "known_items st' its = known_items st its" for its
    by (simp add: known_items_def st'_def)
  have "x < length (heap st') \<and> status (heap st' ! x) \<noteq> WIP
          \<and> known_items st' (items (heap st' ! x))"
    if "x \<in> set (orders_queue st')" for x
  proof -
    from that have x: "x \<in> set (orders_queue st)" "\<not> dispatchable st x"
      by (simp_all add: st'_def)
    have "heap st' ! x = heap st ! x" using same [OF x] by (simp add: st'_def)
    moreover have "length (heap st') = length (heap st)" by (simp add: st'_def len)
    ultimately show ?thesis using assms x(1) by (simp add: kn queue_ok_def)
  qed
  moreover have "distinct (orders_queue st')" using assms by (simp add: st'_def queue_ok_def)
  ultimately have "queue_ok st'" unfolding queue_ok_def by blast
  then show ?thesis by (simp add: res st'_def)
qed

lemma stamps_ok_process:
  assumes "queue_ok st" and "stamps_ok st"
  shows "stamps_ok (snd (process_orders st now))"
proof -
  from process_orders_char [OF assms(1), of now] obtain h' where
    res: "snd (process_orders st now) =
            st\<lparr>heap := h',
                orders_queue := filter (\<lambda>r. \<not> dispatchable st r) (orders_queue st)\<rparr>"
    and len: "length h' = length (heap st)"
    and at: "\<forall>i < length (heap st). h' ! i =
              (if i \<in> set (orders_queue st) \<and> dispatchable st i
               then (heap st ! i)\<lparr>status := WIP\<rparr> else heap st ! i)"
    by auto
  have "(completed_at ord \<noteq> None) = (status ord = COMPLETE)" if "ord \<in> set h'" for ord
  proof -
    from that obtain i where i: "i < length h'" "ord = h' ! i"
      by (auto simp: in_set_conv_nth)
    then have old: "heap st ! i \<in> set (heap st)" using len by simp
    show ?thesis
    proof (cases "i \<in> set (orders_queue st) \<and> dispatchable st i")
      case True
      then have "status (heap st ! i) = PLACED" by (simp add: dispatchable_def)
      then have "completed_at (heap st ! i) = None"
        using assms(2) old unfolding stamps_ok_def by force
      then show ?thesis using i at len True by simp
    next
      case False
      then have "ord = heap st ! i" using i at len by auto
      then show ?thesis using assms(2) old by (simp add: stamps_ok_def)
    qed
  qed
  then show ?thesis by (simp add: res stamps_ok_def)
qed

lemma process_fields:
  assumes "queue_ok st"
  shows "products (snd (process_orders st now)) = products st"
    and "staff_members (snd (process_orders st now)) = staff_members st"
    and "product_group_mapping (snd (process_orders st now)) = product_group_mapping st"
  using process_orders_char [OF assms, of now] by auto

section \<open>Invariants of the reachable states\<close>

lemma staff_ok_init: "staff_ok init"
  unfolding init_def by (rule staff_ok_rebuild) (simp add: sample_staff_def)

lemma queue_ok_init: "queue_ok init"
  by (simp add: init_def queue_ok_def rebuild_fields)

lemma stamps_ok_init: "stamps_ok init"
  by (simp add: init_def stamps_ok_def rebuild_fields)

lemma staff_ok_cong:
  "staff_members a = staff_members b \<Longrightarrow> product_group_mapping a = product_group_mapping b
   \<Longrightarrow> staff_ok a = staff_ok b"
  by (simp add: staff_ok_def index_ok_def)

lemma stamps_ok_cong: "heap a = heap b \<Longrightarrow> stamps_ok a = stamps_ok b"
  by (simp add: stamps_ok_def)

lemma invariants_exec:
  assumes "queue_ok st" "stamps_ok st" "staff_ok st"
  shows "queue_ok (exec c st) \<and> stamps_ok (exec c st) \<and> staff_ok (exec c st)"
proof (cases c)
  case (StaffLogin sid)
  show ?thesis
    using assms queue_ok_cong [of "snd (staff_login st sid)" st]
      stamps_ok_cong [of "snd (staff_login st sid)" st]
    by (simp add: StaffLogin login_fields staff_ok_login)
next
  case (StaffLogout sid)
  show ?thesis
    using assms queue_ok_cong [of "snd (staff_logout st sid)" st]
      stamps_ok_cong [of "snd (staff_logout st sid)" st]
    by (simp add: StaffLogout logout_fields staff_ok_logout)
next
  case (PlaceOrder now u now' its)
  show ?thesis
    using assms staff_ok_cong [of "snd (place_order st now u now' its)" st]
    by (simp add: PlaceOrder queue_ok_place stamps_ok_place place_order_fields)
next
  case (ProcessOrders now)
  show ?thesis
    using assms staff_ok_cong [of "snd (process_orders st now)" st]
    by (simp add: ProcessOrders queue_ok_process stamps_ok_process process_fields)
next
  case (CompleteOrderItem n pc now)
  show ?thesis
    using assms staff_ok_cong [of "snd (complete_order_item st n pc now)" st]
    by (simp add: CompleteOrderItem queue_ok_complete stamps_ok_complete complete_fields)
qed

lemma reachable_invariants:
  "reachable st \<Longrightarrow> queue_ok st \<and> stamps_ok st \<and> staff_ok st"
proof (induction rule: reachable.induct)
  case reachable_init
  show ?case by (simp add: queue_ok_init stamps_ok_init staff_ok_init)
next
  case (reachable_exec self c)
  then show ?case by (simp add: invariants_exec)
qed

lemma reachable_run: "reachable st \<Longrightarrow> reachable (run cs st)"
  unfolding run_def
  by (induction cs arbitrary: st) (auto intro: reachable_exec)

section \<open>Facts about the operations\<close>

lemma find_None_queue:
  "(find P q = None) = (\<forall>r \<in> set q. \<not> P r)"
  by (auto simp: find_None_iff)

lemma unstaffed_not_assigned:
  assumes "known_items st its" and "\<exists>it \<in> set its. unstaffed st it"
  shows "all_items_assigned st its = Inr False"
  using assms
  by (induction its) (auto simp: known_items_def unstaffed_def split: option.splits)

lemma build_items_overflow:
  "\<exists>it \<in> set its. overflows st it \<Longrightarrow>
     build_items (products st) its = Inl (OverflowError ''int too large to convert to float'')"
  by (induction its) (auto simp: overflows_def resolves_def split: option.splits)

lemma build_items_codes:
  "\<not> (\<exists>it \<in> set its. overflows st it) \<Longrightarrow>
     \<exists>ois. build_items (products st) its = Inr ois
       \<and> map product_code ois = map (the \<circ> req_product_code) (filter (resolves st) its)"
  by (induction its) (auto simp: overflows_def resolves_def split: option.splits)

lemma build_items_accepted:
  "(\<exists>ois. build_items (products st) its = Inr ois \<and> ois \<noteq> []) = accepted st its"
proof (cases "\<exists>it \<in> set its. overflows st it")
  case True
  then show ?thesis using build_items_overflow [OF True] by (simp add: accepted_def)
next
  case False
  from build_items_codes [OF False] obtain ois where
    o: "build_items (products st) its = Inr ois"
    and c: "map product_code ois = map (the \<circ> req_product_code) (filter (resolves st) its)"
    by blast
  have "(ois = []) = (map product_code ois = [])" by simp
  also have "\<dots> = (filter (resolves st) its = [])" by (simp add: c)
  also have "\<dots> = (\<not> (\<exists>it \<in> set its. resolves st it))" by (auto simp: filter_empty_conv)
  finally show ?thesis using False o by (simp add: accepted_def)
qed

lemma reachable_products: "reachable st \<Longrightarrow> products st = products init"
proof (induction rule: reachable.induct)
  case reachable_init
  show ?case by simp
next
  case (reachable_exec self c)
  have ok: "queue_ok self" using reachable_exec.hyps reachable_invariants by blast
  show ?case
    using reachable_exec.IH
    by (cases c) (simp_all add: login_fields logout_fields place_order_fields
        process_fields [OF ok] complete_fields)
qed

lemma resolves_reachable: "reachable st \<Longrightarrow> resolves st it = resolves init it"
  using reachable_products [of st] by (simp add: resolves_def split: option.splits)

lemma accepted_reachable: "reachable st \<Longrightarrow> accepted st its = accepted init its"
  by (simp add: accepted_def overflows_def resolves_reachable)

lemma numbers_update:
  "order_number x = order_number (h ! r) \<Longrightarrow> map order_number (h[r := x]) = map order_number h"
  by (cases "r < length h") (simp_all add: map_update list_update_same_conv list_update_beyond)

lemma numbers_process:
  assumes "queue_ok st"
  shows "map order_number (heap (snd (process_orders st now))) = map order_number (heap st)"
proof -
  from process_orders_char [OF assms, of now] obtain h' where
    res: "heap (snd (process_orders st now)) = h'"
    and len: "length h' = length (heap st)"
    and at: "\<forall>i < length (heap st). h' ! i =
              (if i \<in> set (orders_queue st) \<and> dispatchable st i
               then (heap st ! i)\<lparr>status := WIP\<rparr> else heap st ! i)"
    by auto
  have "map order_number h' = map order_number (heap st)"
    using len at by (intro nth_equalityI) auto
  then show ?thesis by (simp add: res)
qed

lemma numbers_exec:
  assumes "reachable st"
  shows "map order_number (heap (exec c st)) =
     map order_number (heap st) @ map (\<lambda>(d, s). ''ORD'' @ d @ s) (placed_keys [c])"
proof (cases c)
  case (StaffLogin sid)
  then show ?thesis by (simp add: login_fields)
next
  case (StaffLogout sid)
  then show ?thesis by (simp add: logout_fields)
next
  case (PlaceOrder now u now' its)
  show ?thesis
  proof (cases rule: place_order_cases [of st now u now' its])
    case (failure e)
    then have "\<not> (\<exists>ois. build_items (products st) its = Inr ois \<and> ois \<noteq> [])"
      by (auto simp: place_order_def Let_def split: sum.splits if_splits)
    then have "\<not> accepted init its"
      by (simp add: build_items_accepted accepted_reachable [OF assms])
    then show ?thesis using failure by (simp add: PlaceOrder)
  next
    case (success ois)
    then have "accepted init its"
      using build_items_accepted [of st its] by (auto simp: accepted_reachable [OF assms])
    then show ?thesis using success(3) by (simp add: PlaceOrder make_order_number_def)
  qed
next
  case (ProcessOrders now)
  have "queue_ok st" using assms reachable_invariants by blast
  then show ?thesis by (simp add: ProcessOrders numbers_process)
next
  case (CompleteOrderItem n pc now)
  show ?thesis
    by (simp add: CompleteOrderItem complete_order_item_def numbers_update update_status_def
        split: option.splits)
qed

lemma placed_keys_Cons: "placed_keys (c # cs) = placed_keys [c] @ placed_keys cs"
  by (cases c) simp_all

lemma numbers_run:
  "reachable st \<Longrightarrow> map order_number (heap (run cs st)) =
     map order_number (heap st) @ map (\<lambda>(d, s). ''ORD'' @ d @ s) (placed_keys cs)"
proof (induction cs arbitrary: st)
  case Nil
  show ?case by (simp add: run_def)
next
  case (Cons c cs)
  have r: "reachable (exec c st)" using Cons.prems by (rule reachable_exec)
  have "run (c # cs) st = run cs (exec c st)" by (simp add: run_def)
  then show ?case
    using Cons.IH [OF r] numbers_exec [OF Cons.prems, of c] placed_keys_Cons [of c cs]
    by simp
qed

lemma placed_keys_length: "(d, s) \<in> set (placed_keys cs) \<Longrightarrow> length d = 8"
  by (induction cs rule: placed_keys.induct) (auto simp: strftime_dmY_def split: if_splits)

lemma number_inj: "inj_on (\<lambda>(d, s). ''ORD'' @ d @ s) (set (placed_keys cs))"
  by (rule inj_onI) (auto dest!: placed_keys_length)

section \<open>Evaluating the sample runs\<close>

lemma date_noon: "strftime_dmY noon = ''04112026''"
  by (simp add: strftime_dmY_def noon_def digit_def char_of_def bit_Suc_0_iff)

lemma digits_uuid:
  "map upper_char (take 3 uuid1) = ''9F3''"
  "map upper_char (take 3 uuid2) = ''9F3''"
  "map upper_char (take 3 uuid3) = ''77A''"
  by (simp_all add: uuid1_def uuid2_def uuid3_def upper_char_def char_of_def bit_Suc_0_iff)

lemma sample_numbers:
  "make_order_number noon uuid1 = ''ORD041120269F3''"
  "make_order_number noon uuid2 = ''ORD041120269F3''"
  "make_order_number noon uuid3 = ''ORD0411202677A''"
  by (simp_all add: make_order_number_def date_noon digits_uuid)

lemma float_overflow_small: "\<bar>q\<bar> < 2 ^ 64 \<Longrightarrow> \<not> float_overflow q"
proof -
  assume "\<bar>q\<bar> < 2 ^ 64"
  moreover have "(2::int) ^ 64 \<le> 2 ^ 970" by (rule power_increasing) simp_all
  moreover have "(2::int) ^ 970 + 2 ^ 970 \<le> 2 ^ 1024"
  proof -
    have "(2::int) ^ 970 + 2 ^ 970 = 2 ^ 971" by simp
    also have "\<dots> \<le> 2 ^ 1024" by (rule power_increasing) simp_all
    finally show ?thesis .
  qed
  ultimately show ?thesis by (simp add: float_overflow_def)
qed

lemma float_overflow_huge: "float_overflow huge"
proof -
  have "(2::int) ^ 1024 \<le> 2 ^ 1200" by (rule power_increasing) simp_all
  also have "\<dots> = (8::int) ^ 400" by (simp flip: power_mult)
  also have "\<dots> \<le> 10 ^ 400" by (rule power_mono) simp_all
  finally have "(2::int) ^ 1024 \<le> 10 ^ 400" .
  then show ?thesis by (simp add: float_overflow_def huge_def)
qed

lemmas eval_defs = run_def init_def update_product_group_mapping_def sample_staff_def
  sample_products_def staff_login_def staff_logout_def place_order_def Let_def request_def
  process_orders_def update_status_def complete_order_item_def dispatchable_def
  unstaffed_def resolves_def overflows_def accepted_def get_orders_by_status_def
  summary_def sample_numbers date_noon digits_uuid float_overflow_small float_overflow_huge

lemma summary_nth:
  assumes "summary s = (q, l)" and "i < length l"
  shows "orders_queue s = q" and "i < length (heap s)"
    and "order_number (heap s ! i) = fst (l ! i)"
    and "status (heap s ! i) = fst (snd (l ! i))"
    and "completed_at (heap s ! i) = snd (snd (l ! i))"
proof -
  have m: "map (\<lambda>ord. (order_number ord, status ord, completed_at ord)) (heap s) = l"
    and q: "orders_queue s = q"
    using assms(1) by (simp_all add: summary_def)
  show "orders_queue s = q" by (rule q)
  have "length (heap s) = length l" using m by (metis length_map)
  then show len: "i < length (heap s)" using assms(2) by simp
  have "l ! i = (order_number (heap s ! i), status (heap s ! i), completed_at (heap s ! i))"
    using nth_map [OF len, of "\<lambda>ord. (order_number ord, status ord, completed_at ord)"] m
    by simp
  then show "order_number (heap s ! i) = fst (l ! i)"
    and "status (heap s ! i) = fst (snd (l ! i))"
    and "completed_at (heap s ! i) = snd (snd (l ! i))"
    by simp_all
qed

section \<open>Claims\<close>

text \<open>
  C1, as amended: an order's status only moves forward. A call of a public operation on
  a reachable state leaves the status of every existing order as it is, or moves it
  from \<open>PLACED\<close> to \<open>WIP\<close> (only \<open>process_orders\<close> does), or from \<open>PLACED\<close> or
  \<open>WIP\<close> to \<open>COMPLETE\<close> (only \<open>complete_order_item\<close> does): a \<open>PLACED\<close> order can
  move directly to \<open>COMPLETE\<close>.
\<close>

theorem status_forward_only:
  assumes "reachable st" and "r < length (heap st)"
  shows "r < length (heap (exec c st))
    \<and> (status (heap (exec c st) ! r) = status (heap st ! r)
       \<or> (status (heap st ! r) = PLACED \<and> status (heap (exec c st) ! r) = WIP
           \<and> (\<exists>now. c = ProcessOrders now))
       \<or> ((status (heap st ! r) = PLACED \<or> status (heap st ! r) = WIP)
           \<and> status (heap (exec c st) ! r) = COMPLETE
           \<and> (\<exists>n pc now. c = CompleteOrderItem n pc now)))"
proof (cases c)
  case (StaffLogin sid)
  then show ?thesis using assms(2) by (simp add: login_fields)
next
  case (StaffLogout sid)
  then show ?thesis using assms(2) by (simp add: logout_fields)
next
  case (PlaceOrder now u now' its)
  show ?thesis
    using assms(2)
    by (cases rule: place_order_cases [of st now u now' its])
      (simp_all add: PlaceOrder nth_append)
next
  case (ProcessOrders now)
  have ok: "queue_ok st" using assms(1) reachable_invariants by blast
  from process_orders_char [OF ok, of now] obtain h' where
    res: "heap (snd (process_orders st now)) = h'"
    and len: "length h' = length (heap st)"
    and at: "\<forall>i < length (heap st). h' ! i =
              (if i \<in> set (orders_queue st) \<and> dispatchable st i
               then (heap st ! i)\<lparr>status := WIP\<rparr> else heap st ! i)"
    by auto
  show ?thesis
  proof (cases "r \<in> set (orders_queue st) \<and> dispatchable st r")
    case True
    then have "status (heap st ! r) = PLACED" by (simp add: dispatchable_def)
    then show ?thesis using True at assms(2) len by (simp add: ProcessOrders res)
  next
    case False
    then have "h' ! r = heap st ! r" using at assms(2) by auto
    then show ?thesis using len assms(2) by (simp add: ProcessOrders res)
  qed
next
  case (CompleteOrderItem n pc now)
  show ?thesis
  proof (cases "find (\<lambda>r. order_number (heap st ! r) = n) (orders_queue st)")
    case None
    then show ?thesis using assms(2) by (simp add: CompleteOrderItem complete_order_item_def)
  next
    case (Some x)
    have h: "heap (snd (complete_order_item st n pc now))
        = (heap st)[x := update_status (heap st ! x) COMPLETE now]"
      using Some by (simp add: complete_order_item_def)
    show ?thesis
    proof (cases "r = x")
      case True
      have "status (heap st ! x) = PLACED \<or> status (heap st ! x) = WIP
          \<or> status (heap st ! x) = COMPLETE"
        by (cases "status (heap st ! x)") simp_all
      then show ?thesis
        using assms(2) True by (auto simp: h update_status_def CompleteOrderItem)
    next
      case False
      then show ?thesis using assms(2) by (simp add: h CompleteOrderItem)
    qed
  qed
qed

theorem status_forward_only_witness:
  "reachable (run [StaffLogin ''S001'', PlaceOrder noon uuid1 noon [request ''P001'' 2]] init)
   \<and> summary (run [StaffLogin ''S001'', PlaceOrder noon uuid1 noon [request ''P001'' 2]] init)
       = ([0], [(''ORD041120269F3'', PLACED, None)])
   \<and> summary (exec (ProcessOrders noon)
         (run [StaffLogin ''S001'', PlaceOrder noon uuid1 noon [request ''P001'' 2]] init))
       = ([], [(''ORD041120269F3'', WIP, None)])
   \<and> status (heap (run [StaffLogin ''S001'',
         PlaceOrder noon uuid1 noon [request ''P001'' 2]] init) ! 0) = PLACED
   \<and> status (heap (exec (ProcessOrders noon) (run [StaffLogin ''S001'',
         PlaceOrder noon uuid1 noon [request ''P001'' 2]] init)) ! 0) = WIP
   \<and> 0 < length (heap (exec (ProcessOrders noon) (run [StaffLogin ''S001'',
         PlaceOrder noon uuid1 noon [request ''P001'' 2]] init)))"
proof -
  let ?s = "run [StaffLogin ''S001'', PlaceOrder noon uuid1 noon [request ''P001'' 2]] init"
  have r: "reachable ?s" by (rule reachable_run [OF reachable_init])
  have a: "summary ?s = ([0], [(''ORD041120269F3'', PLACED, None)])"
    by (simp add: eval_defs)
  have b: "summary (exec (ProcessOrders noon) ?s) = ([], [(''ORD041120269F3'', WIP, None)])"
    by (simp add: eval_defs)
  have l: "0 < length (heap ?s)" and p: "status (heap ?s ! 0) = PLACED"
    using summary_nth(2,4) [OF a, of 0] by simp_all
  have w: "status (heap (exec (ProcessOrders noon) ?s) ! 0) = WIP"
    using summary_nth(4) [OF b, of 0] by simp
  show ?thesis
    using r a b p w status_forward_only [OF r l, of "ProcessOrders noon"] by blast
qed

text \<open>
  The claim as stated fails: an order that was placed and never dispatched is moved
  from \<open>PLACED\<close> directly to \<open>COMPLETE\<close> by \<open>complete_order_item\<close>.
\<close>

theorem status_skips_wip_counterexample:
  "reachable (run [PlaceOrder noon uuid1 noon [request ''P001'' 2]] init)
   \<and> summary (run [PlaceOrder noon uuid1 noon [request ''P001'' 2]] init)
       = ([0], [(''ORD041120269F3'', PLACED, None)])
   \<and> summary (exec (CompleteOrderItem ''ORD041120269F3'' ''P001'' noon)
         (run [PlaceOrder noon uuid1 noon [request ''P001'' 2]] init))
       = ([0], [(''ORD041120269F3'', COMPLETE, Some noon)])"
proof -
  let ?s = "run [PlaceOrder noon uuid1 noon [request ''P001'' 2]] init"
  have r: "reachable ?s" by (rule reachable_run [OF reachable_init])
  have a: "summary ?s = ([0], [(''ORD041120269F3'', PLACED, None)])"
    by (simp add: eval_defs)
  have b: "summary (exec (CompleteOrderItem ''ORD041120269F3'' ''P001'' noon) ?s)
      = ([0], [(''ORD041120269F3'', COMPLETE, Some noon)])"
    by (simp add: eval_defs)
  show ?thesis using r a b by blast
qed

text \<open>
  C2: all-or-nothing dispatch. In a reachable state, a queued order with status
  \<open>PLACED\<close> that has an item whose category has no available staff is, after
  \<open>process_orders\<close>, unchanged in every field, still \<open>PLACED\<close>, still in the queue and
  not among the returned orders, whatever the other items are.
\<close>

theorem all_or_nothing_dispatch:
  assumes "reachable st"
    and "r \<in> set (orders_queue st)"
    and "status (heap st ! r) = PLACED"
    and "\<exists>it \<in> set (items (heap st ! r)). unstaffed st it"
  shows "heap (snd (process_orders st now)) ! r = heap st ! r
    \<and> status (heap (snd (process_orders st now)) ! r) = PLACED
    \<and> r \<in> set (orders_queue (snd (process_orders st now)))
    \<and> (\<exists>ps. fst (process_orders st now) = Inr ps \<and> r \<notin> set ps)"
proof -
  have ok: "queue_ok st" using assms(1) reachable_invariants by blast
  then have len: "r < length (heap st)" and kn: "known_items st (items (heap st ! r))"
    using assms(2) by (simp_all add: queue_ok_def)
  have nd: "\<not> dispatchable st r"
    using unstaffed_not_assigned [OF kn assms(4)] by (simp add: dispatchable_def)
  from process_orders_char [OF ok, of now] obtain h' where
    res: "process_orders st now =
           (Inr (filter (dispatchable st) (orders_queue st)),
            st\<lparr>heap := h',
                orders_queue := filter (\<lambda>r. \<not> dispatchable st r) (orders_queue st)\<rparr>)"
    and at: "\<forall>i < length (heap st). h' ! i =
              (if i \<in> set (orders_queue st) \<and> dispatchable st i
               then (heap st ! i)\<lparr>status := WIP\<rparr> else heap st ! i)"
    by blast
  have "h' ! r = heap st ! r" using at len nd by simp
  then show ?thesis using res nd assms(2,3) by simp
qed

theorem all_or_nothing_dispatch_witness:
  "reachable (run [StaffLogin ''S001'',
       PlaceOrder noon uuid1 noon [request ''P001'' 2, request ''S001'' 1]] init)
   \<and> summary (run [StaffLogin ''S001'',
       PlaceOrder noon uuid1 noon [request ''P001'' 2, request ''S001'' 1]] init)
      = ([0], [(''ORD041120269F3'', PLACED, None)])
   \<and> map (unstaffed (run [StaffLogin ''S001'',
           PlaceOrder noon uuid1 noon [request ''P001'' 2, request ''S001'' 1]] init))
        (items (heap (run [StaffLogin ''S001'',
           PlaceOrder noon uuid1 noon [request ''P001'' 2, request ''S001'' 1]] init) ! 0))
      = [False, True]
   \<and> heap (snd (process_orders (run [StaffLogin ''S001'',
         PlaceOrder noon uuid1 noon [request ''P001'' 2, request ''S001'' 1]] init) noon)) ! 0
      = heap (run [StaffLogin ''S001'',
         PlaceOrder noon uuid1 noon [request ''P001'' 2, request ''S001'' 1]] init) ! 0
   \<and> status (heap (snd (process_orders (run [StaffLogin ''S001'',
         PlaceOrder noon uuid1 noon [request ''P001'' 2, request ''S001'' 1]] init) noon)) ! 0)
      = PLACED
   \<and> 0 \<in> set (orders_queue (snd (process_orders (run [StaffLogin ''S001'',
         PlaceOrder noon uuid1 noon [request ''P001'' 2, request ''S001'' 1]] init) noon)))"
proof -
  let ?s = "run [StaffLogin ''S001'',
       PlaceOrder noon uuid1 noon [request ''P001'' 2, request ''S001'' 1]] init"
  have r: "reachable ?s" by (rule reachable_run [OF reachable_init])
  have a: "summary ?s = ([0], [(''ORD041120269F3'', PLACED, None)])"
    by (simp add: eval_defs)
  have u: "map (unstaffed ?s) (items (heap ?s ! 0)) = [False, True]"
    by (simp add: eval_defs)
  have m: "0 \<in> set (orders_queue ?s)" and p: "status (heap ?s ! 0) = PLACED"
    using summary_nth(1,4) [OF a, of 0] by simp_all
  have "True \<in> set (map (unstaffed ?s) (items (heap ?s ! 0)))" by (simp only: u) simp
  then have e: "\<exists>it \<in> set (items (heap ?s ! 0)). unstaffed ?s it" by auto
  show ?thesis
    using r a u all_or_nothing_dispatch [OF r m p e, of noon] by blast
qed

text \<open>
  C3: index consistency. After \<open>staff_login\<close> or \<open>staff_logout\<close> on a reachable
  state, with any argument, the index entry of every category is, as a set, exactly
  the staff members that are logged in and have the category among their skills; so
  every staff member in the index is logged in.
\<close>

theorem index_consistency:
  assumes "reachable st"
  shows "index_ok (snd (staff_login st sid)) \<and> index_ok (snd (staff_logout st sid))
    \<and> (\<forall>c. \<forall>k \<in> set (product_group_mapping (snd (staff_login st sid)) c).
          \<exists>s. map_of (staff_members (snd (staff_login st sid))) k = Some s \<and> logged_in s)
    \<and> (\<forall>c. \<forall>k \<in> set (product_group_mapping (snd (staff_logout st sid)) c).
          \<exists>s. map_of (staff_members (snd (staff_logout st sid))) k = Some s \<and> logged_in s)"
proof -
  have ok: "staff_ok st" using assms reachable_invariants by blast
  have a: "index_ok (snd (staff_login st sid))"
    using staff_ok_login [OF ok, of sid] by (simp add: staff_ok_def)
  have b: "index_ok (snd (staff_logout st sid))"
    using staff_ok_logout [OF ok, of sid] by (simp add: staff_ok_def)
  have c: "\<forall>c. \<forall>k \<in> set (product_group_mapping s' c).
          \<exists>s. map_of (staff_members s') k = Some s \<and> logged_in s" if "index_ok s'" for s'
    using that unfolding index_ok_def by blast
  show ?thesis using a b c [OF a] c [OF b] by blast
qed

theorem index_consistency_witness:
  "reachable (run [StaffLogin ''S001''] init)
   \<and> map (product_group_mapping (snd (staff_login (run [StaffLogin ''S001''] init) ''S002'')))
        [VEG_PIZZA, NV_PIZZA, SANDWICH, BURGER, DRINKS]
      = [[''S001'', ''S002''], [''S002''], [''S002''], [''S001'', ''S002''], []]
   \<and> map (product_group_mapping (snd (staff_logout (run [StaffLogin ''S001''] init) ''S001'')))
        [VEG_PIZZA, NV_PIZZA, SANDWICH, BURGER, DRINKS]
      = [[], [], [], [], []]
   \<and> index_ok (snd (staff_login (run [StaffLogin ''S001''] init) ''S002''))
   \<and> index_ok (snd (staff_logout (run [StaffLogin ''S001''] init) ''S001''))"
proof -
  have r: "reachable (run [StaffLogin ''S001''] init)"
    by (rule reachable_run [OF reachable_init])
  have v1: "map (product_group_mapping (snd (staff_login (run [StaffLogin ''S001''] init) ''S002'')))
        [VEG_PIZZA, NV_PIZZA, SANDWICH, BURGER, DRINKS]
      = [[''S001'', ''S002''], [''S002''], [''S002''], [''S001'', ''S002''], []]"
    by (simp add: eval_defs)
  have v2: "map (product_group_mapping (snd (staff_logout (run [StaffLogin ''S001''] init) ''S001'')))
        [VEG_PIZZA, NV_PIZZA, SANDWICH, BURGER, DRINKS]
      = [[], [], [], [], []]"
    by (simp add: eval_defs)
  show ?thesis
    using r v1 v2 index_consistency [OF r, of "''S002''"] index_consistency [OF r, of "''S001''"]
    by blast
qed

text \<open>
  C4: idempotence of dispatch. On a reachable state \<open>process_orders\<close> returns a list,
  and a second call right after it returns the empty list and changes nothing.
\<close>

theorem dispatch_idempotent:
  assumes "reachable st"
  shows "\<exists>ps. fst (process_orders st now) = Inr ps
    \<and> process_orders (snd (process_orders st now)) now' = (Inr [], snd (process_orders st now))"
proof -
  define st' where "st' = snd (process_orders st now)"
  have ok: "queue_ok st" using assms reachable_invariants by blast
  from process_orders_char [OF ok, of now] obtain h' where
    res: "process_orders st now =
           (Inr (filter (dispatchable st) (orders_queue st)),
            st\<lparr>heap := h',
                orders_queue := filter (\<lambda>r. \<not> dispatchable st r) (orders_queue st)\<rparr>)"
    and len: "length h' = length (heap st)"
    and at: "\<forall>i < length (heap st). h' ! i =
              (if i \<in> set (orders_queue st) \<and> dispatchable st i
               then (heap st ! i)\<lparr>status := WIP\<rparr> else heap st ! i)"
    by blast
  have st': "st' = st\<lparr>heap := h',
      orders_queue := filter (\<lambda>r. \<not> dispatchable st r) (orders_queue st)\<rparr>"
    by (simp add: st'_def res)
  have ok': "queue_ok st'" unfolding st'_def by (rule queue_ok_process [OF ok])
  have aia: "all_items_assigned st' its = all_items_assigned st its" for its
    by (rule all_items_assigned_cong) (simp_all add: st')
  have nd: "\<not> dispatchable st' x" if "x \<in> set (orders_queue st')" for x
  proof -
    from that have q: "x \<in> set (orders_queue st)" and d: "\<not> dispatchable st x"
      by (simp_all add: st')
    have "x < length (heap st)" using ok q by (simp add: queue_ok_def)
    then have "heap st' ! x = heap st ! x" using at d by (simp add: st')
    then show ?thesis using d by (simp add: dispatchable_def aia)
  qed
  then have none: "filter (dispatchable st') (orders_queue st') = []"
    by (simp add: filter_empty_conv)
  have all: "filter (\<lambda>r. \<not> dispatchable st' r) (orders_queue st') = orders_queue st'"
    using nd by (simp add: filter_id_conv)
  from process_orders_char [OF ok', of now'] obtain h'' where
    res': "process_orders st' now' =
           (Inr (filter (dispatchable st') (orders_queue st')),
            st'\<lparr>heap := h'',
                orders_queue := filter (\<lambda>r. \<not> dispatchable st' r) (orders_queue st')\<rparr>)"
    and len': "length h'' = length (heap st')"
    and at': "\<forall>i < length (heap st'). h'' ! i =
              (if i \<in> set (orders_queue st') \<and> dispatchable st' i
               then (heap st' ! i)\<lparr>status := WIP\<rparr> else heap st' ! i)"
    by blast
  have "h'' = heap st'"
    using len' at' nd by (intro nth_equalityI) auto
  then have "process_orders st' now' = (Inr [], st')"
    using res' none all by simp
  then show ?thesis using res by (simp add: st'_def)
qed

theorem dispatch_idempotent_witness:
  "reachable (run [StaffLogin ''S001'', PlaceOrder noon uuid1 noon [request ''P001'' 2],
       PlaceOrder noon uuid3 noon [request ''S001'' 1]] init)
   \<and> fst (process_orders (run [StaffLogin ''S001'',
         PlaceOrder noon uuid1 noon [request ''P001'' 2],
         PlaceOrder noon uuid3 noon [request ''S001'' 1]] init) noon) = Inr [0]
   \<and> process_orders (snd (process_orders (run [StaffLogin ''S001'',
         PlaceOrder noon uuid1 noon [request ''P001'' 2],
         PlaceOrder noon uuid3 noon [request ''S001'' 1]] init) noon)) noon
      = (Inr [], snd (process_orders (run [StaffLogin ''S001'',
         PlaceOrder noon uuid1 noon [request ''P001'' 2],
         PlaceOrder noon uuid3 noon [request ''S001'' 1]] init) noon))"
proof -
  let ?s = "run [StaffLogin ''S001'', PlaceOrder noon uuid1 noon [request ''P001'' 2],
       PlaceOrder noon uuid3 noon [request ''S001'' 1]] init"
  have r: "reachable ?s" by (rule reachable_run [OF reachable_init])
  have a: "fst (process_orders ?s noon) = Inr [0]" by (simp add: eval_defs)
  show ?thesis using r a dispatch_idempotent [OF r, of noon noon] by blast
qed

text \<open>
  C5, as amended: after any sequence of calls, the order numbers of the orders
  created are, in the order of creation, those of the successful \<open>place_order\<close> calls:
  \<open>ORD\<close>, the date of the call as \<open>ddmmYYYY\<close> and the first three hexadecimal digits
  of its UUID in upper case. They are pairwise distinct if and only if no two
  successful calls agree on both the formatted date and the three digits.
\<close>

theorem order_numbers_distinct_iff:
  "map order_number (heap (run cs init)) = map (\<lambda>(d, s). ''ORD'' @ d @ s) (placed_keys cs)
   \<and> distinct (map order_number (heap (run cs init))) = distinct (placed_keys cs)"
  using numbers_run [OF reachable_init, of cs] number_inj [of cs]
  by (simp add: init_def rebuild_fields distinct_map)

theorem order_numbers_distinct_iff_witness:
  "placed_keys [PlaceOrder noon uuid1 noon [request ''P001'' 2],
       PlaceOrder noon uuid3 noon [request ''UNKNOWN'' 1],
       PlaceOrder noon uuid2 noon [request ''P001'' huge],
       PlaceOrder noon uuid3 noon [request ''D001'' 1]]
      = [(''04112026'', ''9F3''), (''04112026'', ''77A'')]
   \<and> map order_number (heap (run [PlaceOrder noon uuid1 noon [request ''P001'' 2],
       PlaceOrder noon uuid3 noon [request ''UNKNOWN'' 1],
       PlaceOrder noon uuid2 noon [request ''P001'' huge],
       PlaceOrder noon uuid3 noon [request ''D001'' 1]] init))
      = [''ORD041120269F3'', ''ORD0411202677A'']
   \<and> distinct (map order_number (heap (run [PlaceOrder noon uuid1 noon [request ''P001'' 2],
       PlaceOrder noon uuid3 noon [request ''UNKNOWN'' 1],
       PlaceOrder noon uuid2 noon [request ''P001'' huge],
       PlaceOrder noon uuid3 noon [request ''D001'' 1]] init)))"
proof -
  let ?cs = "[PlaceOrder noon uuid1 noon [request ''P001'' 2],
       PlaceOrder noon uuid3 noon [request ''UNKNOWN'' 1],
       PlaceOrder noon uuid2 noon [request ''P001'' huge],
       PlaceOrder noon uuid3 noon [request ''D001'' 1]]"
  have k: "placed_keys ?cs = [(''04112026'', ''9F3''), (''04112026'', ''77A'')]"
    by (simp add: eval_defs)
  have d: "distinct (placed_keys ?cs)" unfolding k by simp
  have m: "map order_number (heap (run ?cs init))
      = map (\<lambda>(d, s). ''ORD'' @ d @ s) (placed_keys ?cs)"
    using order_numbers_distinct_iff [of ?cs] by blast
  have n: "map order_number (heap (run ?cs init)) = [''ORD041120269F3'', ''ORD0411202677A'']"
    unfolding m k by simp
  show ?thesis using k n d order_numbers_distinct_iff [of ?cs] by blast
qed

text \<open>
  The claim as stated fails: two successful calls on the same day, with different
  UUIDs that share their first three digits, return orders with the same number.
\<close>

theorem order_number_collision_counterexample:
  "uuid1 \<noteq> uuid2
   \<and> fst (place_order init noon uuid1 noon [request ''P001'' 2]) = Inr 0
   \<and> fst (place_order (snd (place_order init noon uuid1 noon [request ''P001'' 2]))
            noon uuid2 noon [request ''D001'' 1]) = Inr 1
   \<and> summary (snd (place_order (snd (place_order init noon uuid1 noon [request ''P001'' 2]))
            noon uuid2 noon [request ''D001'' 1]))
      = ([0, 1], [(''ORD041120269F3'', PLACED, None), (''ORD041120269F3'', PLACED, None)])"
proof -
  have a: "uuid1 \<noteq> uuid2" by (simp add: uuid1_def uuid2_def)
  have b: "fst (place_order init noon uuid1 noon [request ''P001'' 2]) = Inr 0"
    by (simp add: eval_defs)
  have c: "fst (place_order (snd (place_order init noon uuid1 noon [request ''P001'' 2]))
            noon uuid2 noon [request ''D001'' 1]) = Inr 1"
    by (simp add: eval_defs)
  have d: "summary (snd (place_order (snd (place_order init noon uuid1 noon
            [request ''P001'' 2])) noon uuid2 noon [request ''D001'' 1]))
      = ([0, 1], [(''ORD041120269F3'', PLACED, None), (''ORD041120269F3'', PLACED, None)])"
    by (simp add: eval_defs)
  show ?thesis using a b c d by blast
qed

text \<open>
  C6: \<open>place_order\<close> raises its \<open>ValueError\<close> (the InvalidOrder condition) exactly when
  no requested item resolves to a catalog product, and a call that raises leaves the
  state, and so the queue, as it was. An item that does not resolve is dropped: when
  an item resolves and the quantity of every resolving item converts to a float, the
  call appends one order to the queue, whose items are the requested items that
  resolve, in their order; when the quantity of a resolving item does not convert,
  the call raises \<open>OverflowError\<close>.
\<close>

theorem place_order_invalid_iff:
  "(fst (place_order st now u now' its) = Inl (ValueError ''No valid items in order''))
      = (\<not> (\<exists>it \<in> set its. resolves st it))
   \<and> ((\<exists>e. fst (place_order st now u now' its) = Inl e)
        \<longrightarrow> snd (place_order st now u now' its) = st)
   \<and> ((\<exists>it \<in> set its. overflows st it) \<longrightarrow>
        fst (place_order st now u now' its)
          = Inl (OverflowError ''int too large to convert to float''))
   \<and> (accepted st its \<longrightarrow>
        fst (place_order st now u now' its) = Inr (length (heap st))
        \<and> orders_queue (snd (place_order st now u now' its))
            = orders_queue st @ [length (heap st)]
        \<and> butlast (heap (snd (place_order st now u now' its))) = heap st
        \<and> map product_code (items (last (heap (snd (place_order st now u now' its)))))
            = map (the \<circ> req_product_code) (filter (resolves st) its))"
proof (cases "\<exists>it \<in> set its. overflows st it")
  case True
  then have "\<exists>it \<in> set its. resolves st it" by (auto simp: overflows_def)
  then show ?thesis
    using True build_items_overflow [OF True]
    by (simp add: place_order_def accepted_def)
next
  case False
  from build_items_codes [OF False] obtain ois where
    o: "build_items (products st) its = Inr ois"
    and c: "map product_code ois = map (the \<circ> req_product_code) (filter (resolves st) its)"
    by blast
  have a: "(ois \<noteq> []) = accepted st its"
    using build_items_accepted [of st its] o by simp
  show ?thesis
  proof (cases "ois = []")
    case True
    then have "\<not> (\<exists>it \<in> set its. resolves st it)"
      using a False by (simp add: accepted_def)
    then show ?thesis using True o False by (simp add: place_order_def accepted_def)
  next
    case nonempty: False
    then have "\<exists>it \<in> set its. resolves st it" using a by (simp add: accepted_def)
    then show ?thesis using nonempty o False c by (simp add: place_order_def Let_def)
  qed
qed

theorem place_order_invalid_iff_witness:
  "fst (place_order init noon uuid1 noon [request ''UNKNOWN'' 1])
      = Inl (ValueError ''No valid items in order'')
   \<and> snd (place_order init noon uuid1 noon [request ''UNKNOWN'' 1]) = init
   \<and> fst (place_order init noon uuid1 noon [request ''UNKNOWN'' 1, request ''P001'' 2])
      = Inr 0
   \<and> orders_queue (snd (place_order init noon uuid1 noon
        [request ''UNKNOWN'' 1, request ''P001'' 2])) = [0]
   \<and> map product_code (items (last (heap (snd (place_order init noon uuid1 noon
        [request ''UNKNOWN'' 1, request ''P001'' 2]))))) = [''P001'']
   \<and> fst (place_order init noon uuid1 noon [request ''D001'' 1, request ''P001'' huge])
      = Inl (OverflowError ''int too large to convert to float'')
   \<and> snd (place_order init noon uuid1 noon [request ''D001'' 1, request ''P001'' huge])
      = init"
proof -
  have a: "map (resolves init) [request ''UNKNOWN'' 1] = [False]"
    by (simp add: eval_defs)
  have b: "map (resolves init) [request ''UNKNOWN'' 1, request ''P001'' 2] = [False, True]"
    by (simp add: eval_defs)
  have b': "map (overflows init) [request ''UNKNOWN'' 1, request ''P001'' 2] = [False, False]"
    by (simp add: eval_defs)
  have g: "map (overflows init) [request ''D001'' 1, request ''P001'' huge] = [False, True]"
    by (simp add: eval_defs float_overflow_huge)
  have na: "\<not> (\<exists>it \<in> set [request ''UNKNOWN'' 1]. resolves init it)"
    using a by simp
  have eb: "accepted init [request ''UNKNOWN'' 1, request ''P001'' 2]"
    using b b' by (simp add: accepted_def)
  have eg: "\<exists>it \<in> set [request ''D001'' 1, request ''P001'' huge]. overflows init it"
    using g by simp
  have f: "filter (resolves init) [request ''UNKNOWN'' 1, request ''P001'' 2]
      = [request ''P001'' 2]" using b by simp
  have h: "heap init = []" and q: "orders_queue init = []"
    by (simp_all add: init_def rebuild_fields)
  have c: "the (req_product_code (request ''P001'' 2)) = ''P001''"
    by (simp add: request_def)
  have one: "fst (place_order init noon uuid1 noon [request ''UNKNOWN'' 1])
      = Inl (ValueError ''No valid items in order'')
    \<and> snd (place_order init noon uuid1 noon [request ''UNKNOWN'' 1]) = init"
    using place_order_invalid_iff [of init noon uuid1 noon "[request ''UNKNOWN'' 1]"] na
    by simp
  have two: "fst (place_order init noon uuid1 noon [request ''UNKNOWN'' 1, request ''P001'' 2])
      = Inr 0
    \<and> orders_queue (snd (place_order init noon uuid1 noon
        [request ''UNKNOWN'' 1, request ''P001'' 2])) = [0]
    \<and> map product_code (items (last (heap (snd (place_order init noon uuid1 noon
        [request ''UNKNOWN'' 1, request ''P001'' 2]))))) = [''P001'']"
  proof -
    have "fst (place_order init noon uuid1 noon [request ''UNKNOWN'' 1, request ''P001'' 2])
        = Inr (length (heap init))
      \<and> orders_queue (snd (place_order init noon uuid1 noon
          [request ''UNKNOWN'' 1, request ''P001'' 2])) = orders_queue init @ [length (heap init)]
      \<and> map product_code (items (last (heap (snd (place_order init noon uuid1 noon
          [request ''UNKNOWN'' 1, request ''P001'' 2])))))
        = map (the \<circ> req_product_code)
            (filter (resolves init) [request ''UNKNOWN'' 1, request ''P001'' 2])"
      using place_order_invalid_iff [of init noon uuid1 noon
          "[request ''UNKNOWN'' 1, request ''P001'' 2]"] eb
      by blast
    then show ?thesis unfolding f h q by (simp add: c)
  qed
  have three: "fst (place_order init noon uuid1 noon [request ''D001'' 1, request ''P001'' huge])
      = Inl (OverflowError ''int too large to convert to float'')
    \<and> snd (place_order init noon uuid1 noon [request ''D001'' 1, request ''P001'' huge])
      = init"
    using place_order_invalid_iff [of init noon uuid1 noon
        "[request ''D001'' 1, request ''P001'' huge]"] eg
    by metis
  show ?thesis using one two three by blast
qed

text \<open>
  C7: FIFO. On a reachable state \<open>process_orders\<close> returns the dispatchable orders
  of the queue in queue order and leaves the others in the queue in their order; the
  returned orders were \<open>PLACED\<close> and are now \<open>WIP\<close>, with no other field changed.
\<close>

theorem dispatch_fifo:
  assumes "reachable st"
  shows "fst (process_orders st now) = Inr (filter (dispatchable st) (orders_queue st))
    \<and> orders_queue (snd (process_orders st now))
        = filter (\<lambda>r. \<not> dispatchable st r) (orders_queue st)
    \<and> (\<forall>r \<in> set (filter (dispatchable st) (orders_queue st)).
          status (heap st ! r) = PLACED
          \<and> heap (snd (process_orders st now)) ! r = (heap st ! r)\<lparr>status := WIP\<rparr>)"
proof -
  have ok: "queue_ok st" using assms reachable_invariants by blast
  from process_orders_char [OF ok, of now] obtain h' where
    res: "process_orders st now =
           (Inr (filter (dispatchable st) (orders_queue st)),
            st\<lparr>heap := h',
                orders_queue := filter (\<lambda>r. \<not> dispatchable st r) (orders_queue st)\<rparr>)"
    and at: "\<forall>i < length (heap st). h' ! i =
              (if i \<in> set (orders_queue st) \<and> dispatchable st i
               then (heap st ! i)\<lparr>status := WIP\<rparr> else heap st ! i)"
    by blast
  have "status (heap st ! r) = PLACED \<and> h' ! r = (heap st ! r)\<lparr>status := WIP\<rparr>"
    if "r \<in> set (filter (dispatchable st) (orders_queue st))" for r
  proof -
    from that have q: "r \<in> set (orders_queue st)" and d: "dispatchable st r" by simp_all
    then have "r < length (heap st)" using ok by (simp add: queue_ok_def)
    then show ?thesis using at q d by (simp add: dispatchable_def)
  qed
  then show ?thesis using res by simp
qed

theorem dispatch_fifo_witness:
  "reachable (run [StaffLogin ''S001'', PlaceOrder noon uuid1 noon [request ''P001'' 2],
       PlaceOrder noon uuid2 noon [request ''S001'' 1],
       PlaceOrder noon uuid3 noon [request ''B001'' 1],
       PlaceOrder noon uuid3 noon [request ''D001'' 4]] init)
   \<and> orders_queue (run [StaffLogin ''S001'', PlaceOrder noon uuid1 noon [request ''P001'' 2],
       PlaceOrder noon uuid2 noon [request ''S001'' 1],
       PlaceOrder noon uuid3 noon [request ''B001'' 1],
       PlaceOrder noon uuid3 noon [request ''D001'' 4]] init) = [0, 1, 2, 3]
   \<and> fst (process_orders (run [StaffLogin ''S001'',
       PlaceOrder noon uuid1 noon [request ''P001'' 2],
       PlaceOrder noon uuid2 noon [request ''S001'' 1],
       PlaceOrder noon uuid3 noon [request ''B001'' 1],
       PlaceOrder noon uuid3 noon [request ''D001'' 4]] init) noon) = Inr [0, 2]
   \<and> orders_queue (snd (process_orders (run [StaffLogin ''S001'',
       PlaceOrder noon uuid1 noon [request ''P001'' 2],
       PlaceOrder noon uuid2 noon [request ''S001'' 1],
       PlaceOrder noon uuid3 noon [request ''B001'' 1],
       PlaceOrder noon uuid3 noon [request ''D001'' 4]] init) noon)) = [1, 3]"
proof -
  let ?s = "run [StaffLogin ''S001'', PlaceOrder noon uuid1 noon [request ''P001'' 2],
       PlaceOrder noon uuid2 noon [request ''S001'' 1],
       PlaceOrder noon uuid3 noon [request ''B001'' 1],
       PlaceOrder noon uuid3 noon [request ''D001'' 4]] init"
  have r: "reachable ?s" by (rule reachable_run [OF reachable_init])
  have q: "orders_queue ?s = [0, 1, 2, 3]" by (simp add: eval_defs)
  have d: "map (dispatchable ?s) [0, 1, 2, 3] = [True, False, True, False]"
    by (simp add: eval_defs)
  have f: "filter (dispatchable ?s) [0, 1, 2, 3] = [0, 2]"
    and g: "filter (\<lambda>r. \<not> dispatchable ?s r) [0, 1, 2, 3] = [1, 3]"
    using d by simp_all
  have t: "fst (process_orders ?s noon) = Inr (filter (dispatchable ?s) (orders_queue ?s))"
    using dispatch_fifo [OF r, of noon] by blast
  have u: "orders_queue (snd (process_orders ?s noon))
      = filter (\<lambda>r. \<not> dispatchable ?s r) (orders_queue ?s)"
    using dispatch_fifo [OF r, of noon] by blast
  show ?thesis
    using r q t [unfolded q f] u [unfolded q g] by blast
qed

text \<open>
  C8: \<open>complete_order_item\<close> returns \<open>False\<close> and leaves the state as it is when no
  order of the queue has the number; when one has, it returns \<open>True\<close> and the first
  such order of the queue gets status \<open>COMPLETE\<close> and \<open>completed_at\<close> the current
  time, nothing else changing; the product code passed makes no difference.
\<close>

theorem complete_order_item_spec:
  "((\<forall>r \<in> set (orders_queue st). order_number (heap st ! r) \<noteq> n)
      \<longrightarrow> complete_order_item st n pc now = (False, st))
   \<and> (reachable st \<longrightarrow> (\<exists>r \<in> set (orders_queue st). order_number (heap st ! r) = n)
      \<longrightarrow> (\<exists>r \<in> set (orders_queue st).
             order_number (heap st ! r) = n
             \<and> complete_order_item st n pc now =
                 (True, st\<lparr>heap := (heap st)
                     [r := (heap st ! r)\<lparr>status := COMPLETE, completed_at := Some now\<rparr>]\<rparr>)
             \<and> status (heap (snd (complete_order_item st n pc now)) ! r) = COMPLETE
             \<and> completed_at (heap (snd (complete_order_item st n pc now)) ! r) = Some now))
   \<and> complete_order_item st n pc now = complete_order_item st n pc' now"
proof (intro conjI impI)
  assume "\<forall>r \<in> set (orders_queue st). order_number (heap st ! r) \<noteq> n"
  then have "find (\<lambda>r. order_number (heap st ! r) = n) (orders_queue st) = None"
    by (simp add: find_None_queue)
  then show "complete_order_item st n pc now = (False, st)"
    by (simp add: complete_order_item_def)
next
  assume r: "reachable st" and ex: "\<exists>r \<in> set (orders_queue st). order_number (heap st ! r) = n"
  then have "find (\<lambda>r. order_number (heap st ! r) = n) (orders_queue st) \<noteq> None"
    by (simp add: find_None_queue)
  then obtain x where x: "find (\<lambda>r. order_number (heap st ! r) = n) (orders_queue st) = Some x"
    by auto
  then have xq: "x \<in> set (orders_queue st)" and xn: "order_number (heap st ! x) = n"
    by (auto dest: find_queue)
  have "queue_ok st" using r reachable_invariants by blast
  then have len: "x < length (heap st)" using xq by (simp add: queue_ok_def)
  have res: "complete_order_item st n pc now =
      (True, st\<lparr>heap := (heap st)
          [x := (heap st ! x)\<lparr>status := COMPLETE, completed_at := Some now\<rparr>]\<rparr>)"
    using x by (simp add: complete_order_item_def update_status_def)
  show "\<exists>r \<in> set (orders_queue st).
             order_number (heap st ! r) = n
             \<and> complete_order_item st n pc now =
                 (True, st\<lparr>heap := (heap st)
                     [r := (heap st ! r)\<lparr>status := COMPLETE, completed_at := Some now\<rparr>]\<rparr>)
             \<and> status (heap (snd (complete_order_item st n pc now)) ! r) = COMPLETE
             \<and> completed_at (heap (snd (complete_order_item st n pc now)) ! r) = Some now"
    using xq xn res len by (intro bexI [of _ x]) simp_all
next
  show "complete_order_item st n pc now = complete_order_item st n pc' now"
    by (simp add: complete_order_item_def)
qed

theorem complete_order_item_spec_witness:
  "complete_order_item init ''ORD-does-not-exist'' ''P001'' noon = (False, init)
   \<and> reachable (run [PlaceOrder noon uuid1 noon [request ''P001'' 2]] init)
   \<and> summary (run [PlaceOrder noon uuid1 noon [request ''P001'' 2]] init)
       = ([0], [(''ORD041120269F3'', PLACED, None)])
   \<and> fst (complete_order_item (run [PlaceOrder noon uuid1 noon [request ''P001'' 2]] init)
        ''ORD041120269F3'' ''B001'' noon) = True
   \<and> status (heap (snd (complete_order_item
        (run [PlaceOrder noon uuid1 noon [request ''P001'' 2]] init)
        ''ORD041120269F3'' ''B001'' noon)) ! 0) = COMPLETE
   \<and> completed_at (heap (snd (complete_order_item
        (run [PlaceOrder noon uuid1 noon [request ''P001'' 2]] init)
        ''ORD041120269F3'' ''B001'' noon)) ! 0) = Some noon"
proof -
  let ?s = "run [PlaceOrder noon uuid1 noon [request ''P001'' 2]] init"
  have q0: "orders_queue init = []" by (simp add: init_def rebuild_fields)
  have a: "complete_order_item init ''ORD-does-not-exist'' ''P001'' noon = (False, init)"
    using complete_order_item_spec [of init "''ORD-does-not-exist''" "''P001''" noon]
    by (simp add: q0)
  have r: "reachable ?s" by (rule reachable_run [OF reachable_init])
  have v: "summary ?s = ([0], [(''ORD041120269F3'', PLACED, None)])"
    by (simp add: eval_defs)
  have q: "orders_queue ?s = [0]" and n: "order_number (heap ?s ! 0) = ''ORD041120269F3''"
    using summary_nth(1,3) [OF v, of 0] by simp_all
  have e: "\<exists>r \<in> set (orders_queue ?s). order_number (heap ?s ! r) = ''ORD041120269F3''"
    using n by (simp add: q)
  have "\<exists>x \<in> set (orders_queue ?s).
      order_number (heap ?s ! x) = ''ORD041120269F3''
      \<and> complete_order_item ?s ''ORD041120269F3'' ''B001'' noon =
          (True, ?s\<lparr>heap := (heap ?s)
              [x := (heap ?s ! x)\<lparr>status := COMPLETE, completed_at := Some noon\<rparr>]\<rparr>)
      \<and> status (heap (snd (complete_order_item ?s ''ORD041120269F3'' ''B001'' noon)) ! x)
          = COMPLETE
      \<and> completed_at (heap (snd (complete_order_item ?s ''ORD041120269F3'' ''B001'' noon)) ! x)
          = Some noon"
    using complete_order_item_spec [of ?s "''ORD041120269F3''" "''B001''" noon] r e by blast
  then obtain x where x: "x \<in> set (orders_queue ?s)"
    and cx: "complete_order_item ?s ''ORD041120269F3'' ''B001'' noon =
          (True, ?s\<lparr>heap := (heap ?s)
              [x := (heap ?s ! x)\<lparr>status := COMPLETE, completed_at := Some noon\<rparr>]\<rparr>)"
    and sx: "status (heap (snd (complete_order_item ?s ''ORD041120269F3'' ''B001'' noon)) ! x)
          = COMPLETE"
    and tx: "completed_at
          (heap (snd (complete_order_item ?s ''ORD041120269F3'' ''B001'' noon)) ! x) = Some noon"
    by blast
  have x0: "x = 0" using x by (simp add: q)
  have "fst (complete_order_item ?s ''ORD041120269F3'' ''B001'' noon) = True"
    by (simp only: cx fst_conv)
  then have b: "fst (complete_order_item ?s ''ORD041120269F3'' ''B001'' noon) = True
      \<and> status (heap (snd (complete_order_item ?s ''ORD041120269F3'' ''B001'' noon)) ! 0)
          = COMPLETE
      \<and> completed_at (heap (snd (complete_order_item ?s ''ORD041120269F3'' ''B001'' noon)) ! 0)
          = Some noon"
    using sx tx unfolding x0 by blast
  show ?thesis using a r v b by blast
qed

text \<open>
  C9: in every state reachable through the public operations, every order ever created
  (in the queue or not) has \<open>completed_at\<close> set if and only if its status is
  \<open>COMPLETE\<close>.
\<close>

theorem completed_at_iff_complete:
  "reachable st \<Longrightarrow>
     \<forall>ord \<in> set (heap st). (completed_at ord \<noteq> None) = (status ord = COMPLETE)"
  using reachable_invariants [of st] by (simp add: stamps_ok_def)

theorem completed_at_iff_complete_witness:
  "reachable (run [StaffLogin ''S001'', PlaceOrder noon uuid1 noon [request ''P001'' 2],
       ProcessOrders noon, PlaceOrder noon uuid3 noon [request ''D001'' 3],
       CompleteOrderItem ''ORD0411202677A'' ''D001'' noon] init)
   \<and> summary (run [StaffLogin ''S001'', PlaceOrder noon uuid1 noon [request ''P001'' 2],
       ProcessOrders noon, PlaceOrder noon uuid3 noon [request ''D001'' 3],
       CompleteOrderItem ''ORD0411202677A'' ''D001'' noon] init)
      = ([1], [(''ORD041120269F3'', WIP, None), (''ORD0411202677A'', COMPLETE, Some noon)])
   \<and> list_all (\<lambda>ord. (completed_at ord \<noteq> None) = (status ord = COMPLETE))
        (heap (run [StaffLogin ''S001'', PlaceOrder noon uuid1 noon [request ''P001'' 2],
           ProcessOrders noon, PlaceOrder noon uuid3 noon [request ''D001'' 3],
           CompleteOrderItem ''ORD0411202677A'' ''D001'' noon] init))"
proof -
  let ?cs = "[StaffLogin ''S001'', PlaceOrder noon uuid1 noon [request ''P001'' 2],
       ProcessOrders noon, PlaceOrder noon uuid3 noon [request ''D001'' 3],
       CompleteOrderItem ''ORD0411202677A'' ''D001'' noon]"
  have r: "reachable (run ?cs init)" by (rule reachable_run [OF reachable_init])
  have v: "summary (run ?cs init)
      = ([1], [(''ORD041120269F3'', WIP, None), (''ORD0411202677A'', COMPLETE, Some noon)])"
    by (simp add: eval_defs)
  show ?thesis using r v completed_at_iff_complete [OF r] by (simp add: list_all_iff)
qed

text \<open>
  C10, as amended: in every reachable state no order of the queue is \<open>WIP\<close>, so
  \<open>get_orders_by_status\<close> returns the empty list for \<open>WIP\<close>; a \<open>WIP\<close> order is not in
  the queue and no \<open>complete_order_item\<close> call changes its status; and
  \<open>complete_order_item\<close> on its number returns \<open>False\<close> and changes nothing, unless
  another order with the same number is in the queue: then it returns \<open>True\<close> and
  completes such an other order.
\<close>

theorem no_wip_in_queue:
  assumes "reachable st"
  shows "(\<forall>r \<in> set (orders_queue st). status (heap st ! r) \<noteq> WIP)
    \<and> get_orders_by_status st WIP = []
    \<and> (\<forall>r < length (heap st). status (heap st ! r) = WIP \<longrightarrow>
          r \<notin> set (orders_queue st)
          \<and> status (heap (snd (complete_order_item st n pc now)) ! r) = WIP
          \<and> ((\<forall>q \<in> set (orders_queue st).
                 order_number (heap st ! q) \<noteq> order_number (heap st ! r))
               \<longrightarrow> complete_order_item st (order_number (heap st ! r)) pc now = (False, st))
          \<and> ((\<exists>q \<in> set (orders_queue st).
                 order_number (heap st ! q) = order_number (heap st ! r))
               \<longrightarrow> (\<exists>q \<in> set (orders_queue st). q \<noteq> r
                     \<and> order_number (heap st ! q) = order_number (heap st ! r)
                     \<and> complete_order_item st (order_number (heap st ! r)) pc now =
                         (True, st\<lparr>heap := (heap st)
                            [q := (heap st ! q)\<lparr>status := COMPLETE,
                                                 completed_at := Some now\<rparr>]\<rparr>))))"
proof -
  have ok: "queue_ok st" using assms reachable_invariants by blast
  then have a: "\<forall>r \<in> set (orders_queue st). status (heap st ! r) \<noteq> WIP"
    by (simp add: queue_ok_def)
  then have b: "get_orders_by_status st WIP = []"
    by (simp add: get_orders_by_status_def filter_empty_conv)
  have c: "r \<notin> set (orders_queue st)
          \<and> status (heap (snd (complete_order_item st n pc now)) ! r) = WIP
          \<and> ((\<forall>q \<in> set (orders_queue st).
                 order_number (heap st ! q) \<noteq> order_number (heap st ! r))
               \<longrightarrow> complete_order_item st (order_number (heap st ! r)) pc now = (False, st))
          \<and> ((\<exists>q \<in> set (orders_queue st).
                 order_number (heap st ! q) = order_number (heap st ! r))
               \<longrightarrow> (\<exists>q \<in> set (orders_queue st). q \<noteq> r
                     \<and> order_number (heap st ! q) = order_number (heap st ! r)
                     \<and> complete_order_item st (order_number (heap st ! r)) pc now =
                         (True, st\<lparr>heap := (heap st)
                            [q := (heap st ! q)\<lparr>status := COMPLETE,
                                                 completed_at := Some now\<rparr>]\<rparr>)))"
    if r: "r < length (heap st)" and w: "status (heap st ! r) = WIP" for r
  proof (intro conjI impI)
    show nq: "r \<notin> set (orders_queue st)" using a w by auto
    show "status (heap (snd (complete_order_item st n pc now)) ! r) = WIP"
    proof (cases "find (\<lambda>r. order_number (heap st ! r) = n) (orders_queue st)")
      case None
      then show ?thesis using w by (simp add: complete_order_item_def)
    next
      case (Some x)
      then have "x \<in> set (orders_queue st)" by (auto dest: find_queue)
      then have "x \<noteq> r" using nq by auto
      then show ?thesis using Some w by (simp add: complete_order_item_def)
    qed
  next
    assume "\<forall>q \<in> set (orders_queue st).
                 order_number (heap st ! q) \<noteq> order_number (heap st ! r)"
    then have "find (\<lambda>q. order_number (heap st ! q) = order_number (heap st ! r))
        (orders_queue st) = None"
      by (simp add: find_None_queue)
    then show "complete_order_item st (order_number (heap st ! r)) pc now = (False, st)"
      by (simp add: complete_order_item_def)
  next
    assume "\<exists>q \<in> set (orders_queue st).
                 order_number (heap st ! q) = order_number (heap st ! r)"
    then have "find (\<lambda>q. order_number (heap st ! q) = order_number (heap st ! r))
        (orders_queue st) \<noteq> None"
      by (simp add: find_None_queue)
    then obtain x where x: "find (\<lambda>q. order_number (heap st ! q) = order_number (heap st ! r))
        (orders_queue st) = Some x" by auto
    then have xq: "x \<in> set (orders_queue st)"
      and xn: "order_number (heap st ! x) = order_number (heap st ! r)"
      by (auto dest: find_queue)
    have xr: "x \<noteq> r" using xq a w by auto
    have "complete_order_item st (order_number (heap st ! r)) pc now =
        (True, st\<lparr>heap := (heap st)
            [x := (heap st ! x)\<lparr>status := COMPLETE, completed_at := Some now\<rparr>]\<rparr>)"
      using x by (simp add: complete_order_item_def update_status_def)
    then show "\<exists>q \<in> set (orders_queue st). q \<noteq> r
                     \<and> order_number (heap st ! q) = order_number (heap st ! r)
                     \<and> complete_order_item st (order_number (heap st ! r)) pc now =
                         (True, st\<lparr>heap := (heap st)
                            [q := (heap st ! q)\<lparr>status := COMPLETE,
                                                 completed_at := Some now\<rparr>]\<rparr>)"
      using xq xn xr by (intro bexI [of _ x]) simp_all
  qed
  show ?thesis using a b c by blast
qed

theorem no_wip_in_queue_witness:
  "reachable (run [StaffLogin ''S001'', PlaceOrder noon uuid1 noon [request ''P001'' 2],
       ProcessOrders noon] init)
   \<and> summary (run [StaffLogin ''S001'', PlaceOrder noon uuid1 noon [request ''P001'' 2],
       ProcessOrders noon] init) = ([], [(''ORD041120269F3'', WIP, None)])
   \<and> get_orders_by_status (run [StaffLogin ''S001'',
       PlaceOrder noon uuid1 noon [request ''P001'' 2], ProcessOrders noon] init) WIP = []
   \<and> complete_order_item (run [StaffLogin ''S001'',
         PlaceOrder noon uuid1 noon [request ''P001'' 2], ProcessOrders noon] init)
        ''ORD041120269F3'' ''P001'' noon
      = (False, run [StaffLogin ''S001'', PlaceOrder noon uuid1 noon [request ''P001'' 2],
           ProcessOrders noon] init)"
proof -
  let ?s = "run [StaffLogin ''S001'', PlaceOrder noon uuid1 noon [request ''P001'' 2],
       ProcessOrders noon] init"
  have r: "reachable ?s" by (rule reachable_run [OF reachable_init])
  have v: "summary ?s = ([], [(''ORD041120269F3'', WIP, None)])"
    by (simp add: eval_defs)
  have q: "orders_queue ?s = []" and l: "0 < length (heap ?s)"
    and o: "order_number (heap ?s ! 0) = ''ORD041120269F3''"
    and w: "status (heap ?s ! 0) = WIP"
    using summary_nth(1,2,3,4) [OF v, of 0] by simp_all
  have n: "\<forall>q \<in> set (orders_queue ?s).
      order_number (heap ?s ! q) \<noteq> order_number (heap ?s ! 0)" by (simp add: q)
  have "complete_order_item ?s (order_number (heap ?s ! 0)) ''P001'' noon = (False, ?s)"
    using l w n no_wip_in_queue [OF r, of "''P001''" "''P001''" noon] by blast
  then have c: "complete_order_item ?s ''ORD041120269F3'' ''P001'' noon = (False, ?s)"
    by (simp only: o)
  show ?thesis
    using r v c no_wip_in_queue [OF r, of "''P001''" "''P001''" noon] by blast
qed

text \<open>
  The claim as stated fails: after an order is dispatched, a second order placed with
  the same number is in the queue, and \<open>complete_order_item\<close> on the number of the
  dispatched order returns \<open>True\<close>.
\<close>

theorem complete_dispatched_counterexample:
  "reachable (run [StaffLogin ''S001'', PlaceOrder noon uuid1 noon [request ''P001'' 2],
       ProcessOrders noon, PlaceOrder noon uuid2 noon [request ''D001'' 1]] init)
   \<and> summary (run [StaffLogin ''S001'', PlaceOrder noon uuid1 noon [request ''P001'' 2],
       ProcessOrders noon, PlaceOrder noon uuid2 noon [request ''D001'' 1]] init)
      = ([1], [(''ORD041120269F3'', WIP, None), (''ORD041120269F3'', PLACED, None)])
   \<and> fst (complete_order_item (run [StaffLogin ''S001'',
       PlaceOrder noon uuid1 noon [request ''P001'' 2],
       ProcessOrders noon, PlaceOrder noon uuid2 noon [request ''D001'' 1]] init)
       ''ORD041120269F3'' ''P001'' noon) = True"
proof -
  let ?s = "run [StaffLogin ''S001'', PlaceOrder noon uuid1 noon [request ''P001'' 2],
       ProcessOrders noon, PlaceOrder noon uuid2 noon [request ''D001'' 1]] init"
  have r: "reachable ?s" by (rule reachable_run [OF reachable_init])
  have a: "summary ?s
      = ([1], [(''ORD041120269F3'', WIP, None), (''ORD041120269F3'', PLACED, None)])"
    by (simp add: eval_defs)
  have c: "fst (complete_order_item ?s ''ORD041120269F3'' ''P001'' noon) = True"
    by (simp add: eval_defs)
  show ?thesis using r a c by blast
qed

end
